theory Spec2Isabelle
  imports Main
begin

section \<open>SQL values\<close>

text \<open>
  The schema of \<^verbatim>\<open>db/init.sql\<close> and \<^verbatim>\<open>api/migrations/001_settings_tables.sql\<close> is
  embedded as tables of rows, and each SQL statement as a function on the database
  state. A nullable column is an \<open>option\<close> (\<open>None\<close> is SQL's NULL). A statement that
  PostgreSQL aborts returns \<open>Inl\<close> of the error; an aborted statement changes nothing.

  \<open>uuid_generate_v4()\<close>, \<open>gen_random_uuid()\<close> and \<open>CURRENT_TIMESTAMP\<close> are not
  functions of the database state: the value each one yields when the statement runs
  is an argument of the statement (\<open>gen\<close>, \<open>now\<close>).
\<close>

type_synonym uuid = nat
type_synonym timestamp = nat
type_synonym date = nat

text \<open>\<^verbatim>\<open>DECIMAL(10, 2)\<close>: the amount counted in hundredths.\<close>

type_synonym decimal = int

datatype db_error =
    not_null_violation
  | check_violation
  | unique_violation
  | foreign_key_violation
  | string_data_right_truncation
  | numeric_value_out_of_range

text \<open>
  A column of an \<^verbatim>\<open>INSERT\<close>: left out of the column list (the column's
  \<^verbatim>\<open>DEFAULT\<close> is stored) or given, possibly as NULL.
\<close>

datatype 'a column = DEFAULT | VALUE "'a option"

fun or_default :: "'a option \<Rightarrow> 'a column \<Rightarrow> 'a option" where
  "or_default d DEFAULT = d"
| "or_default d (VALUE v) = v"

text \<open>
  \<^verbatim>\<open>VARCHAR(n)\<close>: a longer string is an error, unless the characters beyond \<open>n\<close> are
  all spaces, which are cut off.
\<close>

definition varchar_value :: "nat \<Rightarrow> string \<Rightarrow> db_error + string" where
  "varchar_value n s =
     (if length s \<le> n then Inr s
      else if list_all (\<lambda>c. c = CHR '' '') (drop n s) then Inr (take n s)
      else Inl string_data_right_truncation)"

definition varchar :: "nat \<Rightarrow> string option \<Rightarrow> db_error + string option" where
  "varchar n v =
     (case v of
        None \<Rightarrow> Inr None
      | Some s \<Rightarrow> (case varchar_value n s of Inl e \<Rightarrow> Inl e | Inr t \<Rightarrow> Inr (Some t)))"

text \<open>\<^verbatim>\<open>DECIMAL(10, 2)\<close>: at most eight digits before the point.\<close>

definition decimal_10_2 :: "decimal option \<Rightarrow> db_error + decimal option" where
  "decimal_10_2 v =
     (case v of
        None \<Rightarrow> Inr None
      | Some d \<Rightarrow> if \<bar>d\<bar> < 10 ^ 10 then Inr (Some d) else Inl numeric_value_out_of_range)"

text \<open>\<^verbatim>\<open>INTEGER\<close>: four bytes, signed.\<close>

definition int4 :: "int option \<Rightarrow> db_error + int option" where
  "int4 v =
     (case v of
        None \<Rightarrow> Inr None
      | Some i \<Rightarrow>
          if - (2 ^ 31) \<le> i \<and> i < 2 ^ 31 then Inr (Some i)
          else Inl numeric_value_out_of_range)"

section \<open>The tables of init.sql\<close>

subsection \<open>receipts\<close>

record receipt =
  r_id :: uuid
  r_image_url :: "string option"
  r_merchant_name :: "string option"
  r_purchase_date :: "date option"
  r_total_amount :: "decimal option"
  r_tax_amount :: "decimal option"
  r_status :: "string option"
  r_created_at :: "timestamp option"
  r_updated_at :: "timestamp option"

subsection \<open>line\_items\<close>

record line_item =
  li_id :: uuid
  li_receipt_id :: "uuid option"
  li_description :: "string option"
  li_category :: "string option"
  li_quantity :: "int option"
  li_unit_price :: "decimal option"
  li_total_price :: "decimal option"
  li_created_at :: "timestamp option"

subsection \<open>categories\<close>

text \<open>
  \<^verbatim>\<open>init.sql\<close> and the migration both \<^verbatim>\<open>CREATE TABLE IF NOT EXISTS categories\<close>; the
  migration's table has one more column, \<^verbatim>\<open>updated_at\<close>. Which of the two tables
  exists depends on the script that ran first: \<open>categories_has_updated_at\<close> in the
  database state says whether the column is there, and \<open>cat_updated_at\<close> is \<open>None\<close>
  in every row when it is not.
\<close>

record category =
  cat_id :: uuid
  cat_name :: string
  cat_monthly_budget_limit :: "decimal option"
  cat_created_at :: "timestamp option"
  cat_updated_at :: "timestamp option"

subsection \<open>settings (migration 001)\<close>

record setting =
  s_key :: string
  s_value :: string
  s_encrypted :: "bool option"
  s_updated_at :: "timestamp option"

subsection \<open>The database state\<close>

record db =
  receipts :: "receipt list"
  line_items :: "line_item list"
  categories :: "category list"
  categories_has_updated_at :: bool
  settings :: "setting list"

section \<open>Statements on receipts\<close>

text \<open>
  The column types of a receipts row, applied to the values of an \<^verbatim>\<open>INSERT\<close> or
  the \<^verbatim>\<open>SET\<close> clause of an \<^verbatim>\<open>UPDATE\<close>.
\<close>

definition coerce_receipt :: "receipt \<Rightarrow> db_error + receipt" where
  "coerce_receipt r =
     (case varchar 512 (r_image_url r) of Inl e \<Rightarrow> Inl e | Inr url \<Rightarrow>
     (case varchar 255 (r_merchant_name r) of Inl e \<Rightarrow> Inl e | Inr merchant \<Rightarrow>
     (case decimal_10_2 (r_total_amount r) of Inl e \<Rightarrow> Inl e | Inr tot \<Rightarrow>
     (case decimal_10_2 (r_tax_amount r) of Inl e \<Rightarrow> Inl e | Inr tax \<Rightarrow>
     (case varchar 50 (r_status r) of Inl e \<Rightarrow> Inl e | Inr st \<Rightarrow>
        Inr (r\<lparr>r_image_url := url, r_merchant_name := merchant,
               r_total_amount := tot, r_tax_amount := tax, r_status := st\<rparr>))))))"

text \<open>
  \<^verbatim>\<open>CHECK (status IN ('pending', 'complete', 'manual_review'))\<close>. On a NULL status
  the expression is NULL, and a \<^verbatim>\<open>CHECK\<close> whose expression is NULL is satisfied: only
  \<open>FALSE\<close> violates it.
\<close>

definition receipts_status_check :: "string option \<Rightarrow> bool" where
  "receipts_status_check st =
     (case st of
        None \<Rightarrow> True
      | Some s \<Rightarrow> s \<in> set [''pending'', ''complete'', ''manual_review''])"

text \<open>The row constraints of receipts: \<^verbatim>\<open>image_url ... NOT NULL\<close> and the status check.\<close>

definition receipt_constraints :: "receipt \<Rightarrow> db_error option" where
  "receipt_constraints r =
     (if r_image_url r = None then Some not_null_violation
      else if \<not> receipts_status_check (r_status r) then Some check_violation
      else None)"

text \<open>The columns of \<^verbatim>\<open>INSERT INTO receipts\<close>.\<close>

record receipt_insert =
  ins_r_id :: "uuid column"
  ins_r_image_url :: "string column"
  ins_r_merchant_name :: "string column"
  ins_r_purchase_date :: "date column"
  ins_r_total_amount :: "decimal column"
  ins_r_tax_amount :: "decimal column"
  ins_r_status :: "string column"
  ins_r_created_at :: "timestamp column"
  ins_r_updated_at :: "timestamp column"

definition insert_receipt :: "uuid \<Rightarrow> timestamp \<Rightarrow> receipt_insert \<Rightarrow> db \<Rightarrow> db_error + db" where
  "insert_receipt gen now a d =
     (case or_default (Some gen) (ins_r_id a) of
        None \<Rightarrow> Inl not_null_violation
      | Some i \<Rightarrow>
         (case coerce_receipt
                 \<lparr>r_id = i,
                  r_image_url = or_default None (ins_r_image_url a),
                  r_merchant_name = or_default None (ins_r_merchant_name a),
                  r_purchase_date = or_default None (ins_r_purchase_date a),
                  r_total_amount = or_default None (ins_r_total_amount a),
                  r_tax_amount = or_default None (ins_r_tax_amount a),
                  r_status = or_default (Some ''pending'') (ins_r_status a),
                  r_created_at = or_default (Some now) (ins_r_created_at a),
                  r_updated_at = or_default (Some now) (ins_r_updated_at a)\<rparr> of
            Inl e \<Rightarrow> Inl e
          | Inr r \<Rightarrow>
             (case receipt_constraints r of
                Some e \<Rightarrow> Inl e
              | None \<Rightarrow>
                  if i \<in> set (map r_id (receipts d)) then Inl unique_violation
                  else Inr (d\<lparr>receipts := receipts d @ [r]\<rparr>))))"

text \<open>
  \<^verbatim>\<open>DELETE FROM receipts WHERE w\<close>. The only reference to receipts is
  \<^verbatim>\<open>line_items.receipt_id ... REFERENCES receipts(id) ON DELETE CASCADE\<close>: the line
  items of a deleted receipt are deleted by the same statement. No constraint can
  abort it.
\<close>

definition delete_receipts :: "(receipt \<Rightarrow> bool) \<Rightarrow> db \<Rightarrow> db" where
  "delete_receipts w d =
     (let gone = map r_id (filter w (receipts d))
      in d\<lparr>receipts := filter (\<lambda>r. \<not> w r) (receipts d),
            line_items :=
              filter (\<lambda>l. \<not> (case li_receipt_id l of None \<Rightarrow> False | Some p \<Rightarrow> p \<in> set gone))
                (line_items d)\<rparr>)"

text \<open>
  The foreign key of line\_items: every line item's \<open>receipt_id\<close> is the id of a
  receipt (and is not NULL: the column is \<^verbatim>\<open>NOT NULL\<close>).
\<close>

definition has_parent :: "receipt list \<Rightarrow> line_item \<Rightarrow> bool" where
  "has_parent rs l =
     (case li_receipt_id l of None \<Rightarrow> False | Some p \<Rightarrow> p \<in> set (map r_id rs))"

definition line_items_fk :: "db \<Rightarrow> bool" where
  "line_items_fk d = list_all (has_parent (receipts d)) (line_items d)"

text \<open>
  The trigger function of \<^verbatim>\<open>init.sql\<close>:
  \<^verbatim>\<open>NEW.updated_at = CURRENT_TIMESTAMP; RETURN NEW;\<close>
\<close>

definition update_updated_at_column :: "timestamp \<Rightarrow> receipt \<Rightarrow> receipt" where
  "update_updated_at_column now NEW = NEW\<lparr>r_updated_at := Some now\<rparr>"

text \<open>
  \<^verbatim>\<open>UPDATE receipts SET s WHERE w\<close>: \<open>s\<close> gives the new row from the old one (it may
  assign any column, \<^verbatim>\<open>updated_at\<close> too). For each row that \<open>w\<close> selects the new
  values take the column types, then the trigger \<^verbatim>\<open>update_receipts_updated_at BEFORE
  UPDATE ON receipts FOR EACH ROW\<close> runs on the new row, then the row constraints and
  the primary key are checked against the table as it stands (\<open>seen\<close>: the rows
  already written, \<open>rest\<close>: those still to visit).
\<close>

fun update_receipts_scan ::
  "timestamp \<Rightarrow> (receipt \<Rightarrow> bool) \<Rightarrow> (receipt \<Rightarrow> receipt) \<Rightarrow> receipt list \<Rightarrow> receipt list
     \<Rightarrow> db_error + receipt list" where
  "update_receipts_scan now w s seen [] = Inr seen"
| "update_receipts_scan now w s seen (old # rest) =
     (if w old then
        (case coerce_receipt (s old) of
           Inl e \<Rightarrow> Inl e
         | Inr new \<Rightarrow>
            (case receipt_constraints (update_updated_at_column now new) of
               Some e \<Rightarrow> Inl e
             | None \<Rightarrow>
                 if r_id new \<in> set (map r_id (seen @ rest)) then Inl unique_violation
                 else update_receipts_scan now w s
                        (seen @ [update_updated_at_column now new]) rest))
      else update_receipts_scan now w s (seen @ [old]) rest)"

text \<open>
  The foreign key of line\_items has no \<^verbatim>\<open>ON UPDATE\<close> action: an update that takes
  the id of a receipt away from its line items is aborted when the statement ends.
\<close>

definition update_receipts ::
  "timestamp \<Rightarrow> (receipt \<Rightarrow> bool) \<Rightarrow> (receipt \<Rightarrow> receipt) \<Rightarrow> db \<Rightarrow> db_error + db" where
  "update_receipts now w s d =
     (case update_receipts_scan now w s [] (receipts d) of
        Inl e \<Rightarrow> Inl e
      | Inr rs \<Rightarrow>
          if list_all (has_parent rs) (line_items d) then Inr (d\<lparr>receipts := rs\<rparr>)
          else Inl foreign_key_violation)"

section \<open>Statements on line\_items\<close>

definition coerce_line_item :: "line_item \<Rightarrow> db_error + line_item" where
  "coerce_line_item l =
     (case varchar 255 (li_description l) of Inl e \<Rightarrow> Inl e | Inr descr \<Rightarrow>
     (case varchar 100 (li_category l) of Inl e \<Rightarrow> Inl e | Inr cat \<Rightarrow>
     (case int4 (li_quantity l) of Inl e \<Rightarrow> Inl e | Inr qty \<Rightarrow>
     (case decimal_10_2 (li_unit_price l) of Inl e \<Rightarrow> Inl e | Inr unit_p \<Rightarrow>
     (case decimal_10_2 (li_total_price l) of Inl e \<Rightarrow> Inl e | Inr total_p \<Rightarrow>
        Inr (l\<lparr>li_description := descr, li_category := cat, li_quantity := qty,
               li_unit_price := unit_p, li_total_price := total_p\<rparr>))))))"

text \<open>The columns of \<^verbatim>\<open>INSERT INTO line_items\<close>.\<close>

record line_item_insert =
  ins_li_id :: "uuid column"
  ins_li_receipt_id :: "uuid column"
  ins_li_description :: "string column"
  ins_li_category :: "string column"
  ins_li_quantity :: "int column"
  ins_li_unit_price :: "decimal column"
  ins_li_total_price :: "decimal column"
  ins_li_created_at :: "timestamp column"

text \<open>
  \<^verbatim>\<open>quantity INTEGER DEFAULT 1\<close>: the column has a default and a type, and no
  \<^verbatim>\<open>NOT NULL\<close> or \<^verbatim>\<open>CHECK\<close>. The only row constraints of line\_items are the
  primary key, \<^verbatim>\<open>receipt_id ... NOT NULL\<close> and the foreign key.
\<close>

definition insert_line_item ::
  "uuid \<Rightarrow> timestamp \<Rightarrow> line_item_insert \<Rightarrow> db \<Rightarrow> db_error + db" where
  "insert_line_item gen now a d =
     (case or_default (Some gen) (ins_li_id a) of
        None \<Rightarrow> Inl not_null_violation
      | Some i \<Rightarrow>
         (case coerce_line_item
                 \<lparr>li_id = i,
                  li_receipt_id = or_default None (ins_li_receipt_id a),
                  li_description = or_default None (ins_li_description a),
                  li_category = or_default None (ins_li_category a),
                  li_quantity = or_default (Some 1) (ins_li_quantity a),
                  li_unit_price = or_default None (ins_li_unit_price a),
                  li_total_price = or_default None (ins_li_total_price a),
                  li_created_at = or_default (Some now) (ins_li_created_at a)\<rparr> of
            Inl e \<Rightarrow> Inl e
          | Inr l \<Rightarrow>
              if li_receipt_id l = None then Inl not_null_violation
              else if i \<in> set (map li_id (line_items d)) then Inl unique_violation
              else if \<not> has_parent (receipts d) l then Inl foreign_key_violation
              else Inr (d\<lparr>line_items := line_items d @ [l]\<rparr>)))"

section \<open>Statements on categories and settings\<close>

text \<open>
  The state a statement leaves: an aborted statement leaves the state it found.
\<close>

definition state_after :: "db \<Rightarrow> db_error + db \<Rightarrow> db" where
  "state_after d res = (case res of Inl e \<Rightarrow> d | Inr d' \<Rightarrow> d')"

text \<open>
  One row of \<^verbatim>\<open>INSERT INTO categories (name, monthly_budget_limit) VALUES ... ON
  CONFLICT (name) DO NOTHING\<close>. The values take the column types; a row whose name is
  already in the table is skipped; the primary key on \<^verbatim>\<open>id\<close> is not the conflict
  target, so an id that is taken aborts the statement.
\<close>

definition insert_category_on_conflict_do_nothing ::
  "uuid \<Rightarrow> timestamp \<Rightarrow> string \<Rightarrow> decimal option \<Rightarrow> db \<Rightarrow> db_error + db" where
  "insert_category_on_conflict_do_nothing gen now name limit d =
     (case varchar_value 100 name of Inl e \<Rightarrow> Inl e | Inr n \<Rightarrow>
     (case decimal_10_2 limit of Inl e \<Rightarrow> Inl e | Inr b \<Rightarrow>
        if n \<in> set (map cat_name (categories d)) then Inr d
        else if gen \<in> set (map cat_id (categories d)) then Inl unique_violation
        else Inr (d\<lparr>categories := categories d @
                     [\<lparr>cat_id = gen, cat_name = n, cat_monthly_budget_limit = b,
                       cat_created_at = Some now,
                       cat_updated_at =
                         (if categories_has_updated_at d then Some now else None)\<rparr>]\<rparr>)))"

text \<open>
  The rows of one \<^verbatim>\<open>VALUES\<close> list, in order, each with the id drawn for it. The first
  error aborts the statement.
\<close>

fun insert_categories ::
  "timestamp \<Rightarrow> (uuid \<times> string \<times> decimal option) list \<Rightarrow> db \<Rightarrow> db_error + db" where
  "insert_categories now [] d = Inr d"
| "insert_categories now ((gen, name, limit) # rows) d =
     (case insert_category_on_conflict_do_nothing gen now name limit d of
        Inl e \<Rightarrow> Inl e
      | Inr d' \<Rightarrow> insert_categories now rows d')"

text \<open>The default categories of \<^verbatim>\<open>init.sql\<close>, with their budget limits.\<close>

definition init_sql_categories :: "(string \<times> decimal option) list" where
  "init_sql_categories =
     [(''Groceries'', Some 40000),
      (''Dining'', Some 30000),
      (''Transportation'', Some 20000),
      (''Utilities'', Some 25000),
      (''Entertainment'', Some 15000),
      (''Healthcare'', Some 20000),
      (''Clothing'', Some 15000),
      (''Home & Garden'', Some 10000),
      (''Personal Care'', Some 10000),
      (''Shopping'', Some 20000),
      (''Other'', Some 10000)]"

text \<open>The default categories of migration 001: the same names, every limit NULL.\<close>

definition migration_001_categories :: "(string \<times> decimal option) list" where
  "migration_001_categories =
     [(''Groceries'', None),
      (''Dining'', None),
      (''Transportation'', None),
      (''Utilities'', None),
      (''Entertainment'', None),
      (''Healthcare'', None),
      (''Clothing'', None),
      (''Home & Garden'', None),
      (''Personal Care'', None),
      (''Shopping'', None),
      (''Other'', None)]"

text \<open>
  A seed statement: \<open>gen k\<close> is the id drawn for the \<open>k\<close>-th row of the
  \<^verbatim>\<open>VALUES\<close> list.
\<close>

definition seed_categories ::
  "(string \<times> decimal option) list \<Rightarrow> (nat \<Rightarrow> uuid) \<Rightarrow> timestamp \<Rightarrow> db \<Rightarrow> db_error + db" where
  "seed_categories rows gen now d =
     insert_categories now (zip (map gen [0..<length rows]) rows) d"

definition init_sql_seed_categories :: "(nat \<Rightarrow> uuid) \<Rightarrow> timestamp \<Rightarrow> db \<Rightarrow> db_error + db" where
  "init_sql_seed_categories = seed_categories init_sql_categories"

definition migration_001_seed_categories ::
  "(nat \<Rightarrow> uuid) \<Rightarrow> timestamp \<Rightarrow> db \<Rightarrow> db_error + db" where
  "migration_001_seed_categories = seed_categories migration_001_categories"

text \<open>
  One row of \<^verbatim>\<open>INSERT INTO settings (key, value, encrypted) VALUES ... ON CONFLICT
  (key) DO NOTHING\<close>. \<^verbatim>\<open>key\<close> is the primary key and the only unique column.
\<close>

definition insert_setting_on_conflict_do_nothing ::
  "timestamp \<Rightarrow> string \<Rightarrow> string \<Rightarrow> bool \<Rightarrow> db \<Rightarrow> db_error + db" where
  "insert_setting_on_conflict_do_nothing now key val encrypted d =
     (case varchar_value 100 key of Inl e \<Rightarrow> Inl e | Inr k \<Rightarrow>
        if k \<in> set (map s_key (settings d)) then Inr d
        else Inr (d\<lparr>settings := settings d @
                     [\<lparr>s_key = k, s_value = val, s_encrypted = Some encrypted,
                       s_updated_at = Some now\<rparr>]\<rparr>))"

fun insert_settings ::
  "timestamp \<Rightarrow> (string \<times> string \<times> bool) list \<Rightarrow> db \<Rightarrow> db_error + db" where
  "insert_settings now [] d = Inr d"
| "insert_settings now ((key, val, encrypted) # rows) d =
     (case insert_setting_on_conflict_do_nothing now key val encrypted d of
        Inl e \<Rightarrow> Inl e
      | Inr d' \<Rightarrow> insert_settings now rows d')"

text \<open>The default settings of migration 001.\<close>

definition migration_001_settings :: "(string \<times> string \<times> bool) list" where
  "migration_001_settings =
     [(''llm_provider'', ''gemini'', False),
      (''llm_model'', ''gemini-2.0-flash'', False),
      (''theme'', ''system'', False)]"

definition migration_001_seed_settings :: "timestamp \<Rightarrow> db \<Rightarrow> db_error + db" where
  "migration_001_seed_settings now d = insert_settings now migration_001_settings d"

text \<open>
  Modelled from the spec: the Settings Store's \<open>set(key, value, encrypted=false)\<close>.
  The API code that implements it is not among the sources; the spec (4.2) says:
  ``\<open>set\<close> is an upsert keyed by \<open>key\<close>; last write wins; \<open>updated_at\<close> timestamp
  refreshed''. It is run here on the settings table that migration 001 declares, whose
  \<^verbatim>\<open>key VARCHAR(100)\<close> column type applies to the key written.
\<close>

definition settings_set ::
  "timestamp \<Rightarrow> string \<Rightarrow> string \<Rightarrow> bool \<Rightarrow> db \<Rightarrow> db_error + db" where
  "settings_set now key val encrypted d =
     (case varchar_value 100 key of Inl e \<Rightarrow> Inl e | Inr k \<Rightarrow>
        if k \<in> set (map s_key (settings d))
        then Inr (d\<lparr>settings :=
                     map (\<lambda>s. if s_key s = k
                              then s\<lparr>s_value := val, s_encrypted := Some encrypted,
                                     s_updated_at := Some now\<rparr>
                              else s)
                       (settings d)\<rparr>)
        else Inr (d\<lparr>settings := settings d @
                     [\<lparr>s_key = k, s_value = val, s_encrypted = Some encrypted,
                       s_updated_at = Some now\<rparr>]\<rparr>))"

text \<open>
  The uniqueness constraints of the two tables: \<^verbatim>\<open>categories.id\<close> (primary key),
  \<^verbatim>\<open>categories.name\<close> (\<^verbatim>\<open>UNIQUE\<close>, \<^verbatim>\<open>VARCHAR(100)\<close>) and \<^verbatim>\<open>settings.key\<close>
  (primary key, \<^verbatim>\<open>VARCHAR(100)\<close>).
\<close>

definition categories_unique :: "db \<Rightarrow> bool" where
  "categories_unique d =
     (distinct (map cat_name (categories d)) \<and> distinct (map cat_id (categories d)) \<and>
      list_all (\<lambda>c. length (cat_name c) \<le> 100) (categories d))"

definition settings_unique :: "db \<Rightarrow> bool" where
  "settings_unique d =
     (distinct (map s_key (settings d)) \<and>
      list_all (\<lambda>s. length (s_key s) \<le> 100) (settings d))"

text \<open>The row of a category name, and the row of a settings key.\<close>

definition category_named :: "db \<Rightarrow> string \<Rightarrow> category option" where
  "category_named d n = find (\<lambda>c. cat_name c = n) (categories d)"

definition setting_of :: "db \<Rightarrow> string \<Rightarrow> setting option" where
  "setting_of d k = find (\<lambda>s. s_key s = k) (settings d)"

section \<open>The upload dropzone\<close>

text \<open>
  \<^verbatim>\<open>frontend/components/receipt-dropzone.tsx\<close>. The component has no state of its own:
  the selected file is a prop. What it does to the outside is the list of the calls it
  makes, in order: the two callbacks of its props and \<^verbatim>\<open>console.warn\<close>.
\<close>

record File =
  file_name :: string
  file_type :: string
  file_size :: nat

record file_error =
  err_code :: string
  err_message :: string

record file_rejection =
  rej_file :: File
  rej_errors :: "file_error list"

datatype effect =
    onFileSelect File
  | onFileRemove
  | console_warn string "file_error list"

record props =
  selectedFile :: "File option"
  disabled :: bool

definition onDrop :: "File list \<Rightarrow> file_rejection list \<Rightarrow> effect list" where
  "onDrop acceptedFiles rejectedFiles =
     (if length acceptedFiles > 0 then [onFileSelect (acceptedFiles ! 0)] else []) @
     (if length rejectedFiles > 0
      then [console_warn ''File rejected:'' (rej_errors (rejectedFiles ! 0))]
      else [])"

text \<open>The options the component passes to \<^verbatim>\<open>useDropzone\<close> (beside \<^verbatim>\<open>onDrop\<close>).\<close>

record dropzone_options =
  dz_accept :: "(string \<times> string list) list"
  dz_maxFiles :: nat
  dz_multiple :: bool
  dz_disabled :: bool

definition useDropzone_options :: "props \<Rightarrow> dropzone_options" where
  "useDropzone_options p =
     \<lparr>dz_accept = [(''image/jpeg'', []), (''image/png'', []), (''application/pdf'', [])],
      dz_maxFiles = 1,
      dz_multiple = False,
      dz_disabled = (disabled p \<or> selectedFile p \<noteq> None)\<rparr>"

text \<open>
  \<^verbatim>\<open>useDropzone\<close> belongs to the react-dropzone package, which is not part of the
  repository. It is a parameter here: a function that, for the options and the files of
  a drop, gives the two lists it calls \<^verbatim>\<open>onDrop\<close> with, or \<open>None\<close> when it does not
  call \<^verbatim>\<open>onDrop\<close>.
\<close>

type_synonym dropzone =
  "dropzone_options \<Rightarrow> File list \<Rightarrow> (File list \<times> file_rejection list) option"

definition handle_drop :: "dropzone \<Rightarrow> props \<Rightarrow> File list \<Rightarrow> effect list" where
  "handle_drop lib p files =
     (case lib (useDropzone_options p) files of
        None \<Rightarrow> []
      | Some (acceptedFiles, rejectedFiles) \<Rightarrow> onDrop acceptedFiles rejectedFiles)"

text \<open>The files handed to \<^verbatim>\<open>onFileSelect\<close>, and the calls of the two callbacks.\<close>

fun selected_files :: "effect list \<Rightarrow> File list" where
  "selected_files [] = []"
| "selected_files (onFileSelect f # es) = f # selected_files es"
| "selected_files (e # es) = selected_files es"

fun is_callback :: "effect \<Rightarrow> bool" where
  "is_callback (onFileSelect f) = True"
| "is_callback onFileRemove = True"
| "is_callback (console_warn m errs) = False"

definition callbacks :: "effect list \<Rightarrow> effect list" where
  "callbacks es = filter is_callback es"

text \<open>
  A dropzone that does what react-dropzone documents for these options: a disabled
  dropzone ignores the drop; a file is accepted when its type is a key of \<^verbatim>\<open>accept\<close>;
  when \<^verbatim>\<open>multiple\<close> is off and more than one file would be accepted, every file is
  rejected.
\<close>

definition invalid_type :: file_error where
  "invalid_type =
     \<lparr>err_code = ''file-invalid-type'', err_message = ''File type is not accepted''\<rparr>"

definition too_many_files :: file_error where
  "too_many_files = \<lparr>err_code = ''too-many-files'', err_message = ''Too many files''\<rparr>"

definition react_dropzone :: dropzone where
  "react_dropzone opts files =
     (if dz_disabled opts then None
      else
        (let ok = (\<lambda>f. file_type f \<in> set (map fst (dz_accept opts)));
             acc = filter ok files;
             rej = map (\<lambda>f. \<lparr>rej_file = f, rej_errors = [invalid_type]\<rparr>)
                     (filter (\<lambda>f. \<not> ok f) files)
         in if (if dz_multiple opts
                then 1 \<le> dz_maxFiles opts \<and> dz_maxFiles opts < length acc
                else 1 < length acc)
            then Some ([], rej @ map (\<lambda>f. \<lparr>rej_file = f, rej_errors = [too_many_files]\<rparr>) acc)
            else Some (acc, rej)))"

subsection \<open>formatFileSize\<close>

text \<open>
  \<^verbatim>\<open>bytes\<close> is the \<^verbatim>\<open>size\<close> of a \<^verbatim>\<open>File\<close>: a non-negative integer.
  \<^verbatim>\<open>Math.floor(Math.log(bytes) / Math.log(k))\<close> is taken as the exact integer
  logarithm (the largest \<open>i\<close> with \<open>k ^ i \<le> bytes\<close>). Dividing by \<open>k ^ i\<close>, a power of
  two, is exact in floating point, and \<^verbatim>\<open>toFixed(2)\<close> rounds the exact quotient to
  hundredths, a tie upwards: the number is kept in hundredths.
\<close>

function floor_log :: "nat \<Rightarrow> nat \<Rightarrow> nat" where
  "floor_log k n = (if k < 2 \<or> n < k then 0 else Suc (floor_log k (n div k)))"
  by pat_completeness auto
termination
  by (relation "measure (\<lambda>(k, n). n)") auto

declare floor_log.simps [simp del]

definition toFixed_2 :: "nat \<Rightarrow> nat \<Rightarrow> nat" where
  "toFixed_2 n d = (200 * n + d) div (2 * d)"

function digits :: "nat \<Rightarrow> string" where
  "digits n =
     (if n < 10 then [''0123456789'' ! n]
      else digits (n div 10) @ [''0123456789'' ! (n mod 10)])"
  by pat_completeness auto
termination
  by (relation "measure (\<lambda>n. n)") auto

declare digits.simps [simp del]

text \<open>
  \<^verbatim>\<open>parseFloat\<close> of the \<^verbatim>\<open>toFixed(2)\<close> string, printed again by \<^verbatim>\<open>+\<close>: the zeros
  at the end of the fraction go.
\<close>

definition number_string :: "nat \<Rightarrow> string" where
  "number_string h =
     digits (h div 100) @
     (if h mod 100 = 0 then []
      else if h mod 10 = 0 then ''.'' @ digits (h mod 100 div 10)
      else ''.'' @ digits (h mod 100 div 10) @ digits (h mod 10))"

definition sizes :: "string list" where
  "sizes = [''Bytes'', ''KB'', ''MB'', ''GB'']"

text \<open>\<^verbatim>\<open>sizes[i]\<close> beyond the end of the array is \<^verbatim>\<open>undefined\<close>, which \<^verbatim>\<open>+\<close> prints.\<close>

definition formatFileSize :: "nat \<Rightarrow> string" where
  "formatFileSize bytes =
     (if bytes = 0 then ''0 Bytes''
      else
        (let k = 1024; i = floor_log k bytes
         in number_string (toFixed_2 bytes (k ^ i)) @ '' '' @
            (if i < length sizes then sizes ! i else ''undefined'')))"

section \<open>Example states\<close>

text \<open>
  A store with one receipt and its three line items, a category whose budget limit
  was changed after seeding, and a setting that was changed after seeding.
\<close>

definition example_receipt :: receipt where
  "example_receipt =
     \<lparr>r_id = 1, r_image_url = Some ''/app/storage/r1.png'',
      r_merchant_name = Some ''Corner Shop'', r_purchase_date = Some 19000,
      r_total_amount = Some 1250, r_tax_amount = Some 100,
      r_status = Some ''pending'', r_created_at = Some 5, r_updated_at = Some 5\<rparr>"

definition example_line_item :: "uuid \<Rightarrow> line_item" where
  "example_line_item i =
     \<lparr>li_id = i, li_receipt_id = Some 1, li_description = Some ''Milk'',
      li_category = Some ''Groceries'', li_quantity = Some 1,
      li_unit_price = Some 250, li_total_price = Some 250, li_created_at = Some 5\<rparr>"

definition example_db :: db where
  "example_db =
     \<lparr>receipts = [example_receipt],
      line_items = [example_line_item 10, example_line_item 11, example_line_item 12],
      categories =
        [\<lparr>cat_id = 100, cat_name = ''Groceries'', cat_monthly_budget_limit = Some 55000,
          cat_created_at = Some 1, cat_updated_at = None\<rparr>],
      categories_has_updated_at = False,
      settings =
        [\<lparr>s_key = ''theme'', s_value = ''dark'', s_encrypted = Some False,
          s_updated_at = Some 6\<rparr>]\<rparr>"

definition empty_db :: db where
  "empty_db =
     \<lparr>receipts = [], line_items = [], categories = [], categories_has_updated_at = False,
      settings = []\<rparr>"

definition example_png :: File where
  "example_png = \<lparr>file_name = ''receipt.png'', file_type = ''image/png'', file_size = 1234567\<rparr>"

definition example_jpeg :: File where
  "example_jpeg = \<lparr>file_name = ''scan.jpg'', file_type = ''image/jpeg'', file_size = 2048\<rparr>"

definition example_txt :: File where
  "example_txt = \<lparr>file_name = ''notes.txt'', file_type = ''text/plain'', file_size = 12\<rparr>"

section \<open>Receipts and line items: what the schema guarantees\<close>

subsection \<open>Deleting a receipt\<close>

lemma delete_receipts_other_tables:
  "categories (delete_receipts w d) = categories d \<and> settings (delete_receipts w d) = settings d"
  by (simp add: delete_receipts_def Let_def)

lemma has_parent_kept:
  assumes "has_parent (receipts d) l"
    and "\<not> (case li_receipt_id l of None \<Rightarrow> False
              | Some p \<Rightarrow> p \<in> set (map r_id (filter w (receipts d))))"
  shows "has_parent (filter (\<lambda>r. \<not> w r) (receipts d)) l"
proof -
  from assms(1) obtain p r where p: "li_receipt_id l = Some p"
    and r: "r \<in> set (receipts d)" "r_id r = p"
    by (auto simp: has_parent_def split: option.splits)
  from assms(2) p r have "\<not> w r" by auto
  with p r show ?thesis by (auto simp: has_parent_def)
qed

text \<open>
  C1. \<^verbatim>\<open>DELETE FROM receipts WHERE w\<close> is one step of the store. After it no line item
  refers to a receipt that the statement deleted, and if every line item had its
  receipt before, every remaining line item has its receipt afterwards: no line item
  outlives its receipt.
\<close>

theorem delete_receipts_cascade:
  "(\<forall>l \<in> set (line_items (delete_receipts w d)).
      \<forall>r \<in> set (receipts d). w r \<longrightarrow> li_receipt_id l \<noteq> Some (r_id r)) \<and>
   (\<forall>r \<in> set (receipts (delete_receipts w d)). \<not> w r) \<and>
   (line_items_fk d \<longrightarrow> line_items_fk (delete_receipts w d))"
proof (intro conjI impI)
  show "\<forall>l \<in> set (line_items (delete_receipts w d)).
      \<forall>r \<in> set (receipts d). w r \<longrightarrow> li_receipt_id l \<noteq> Some (r_id r)"
    by (auto simp: delete_receipts_def Let_def)
  show "\<forall>r \<in> set (receipts (delete_receipts w d)). \<not> w r"
    by (simp add: delete_receipts_def Let_def)
  assume "line_items_fk d"
  then show "line_items_fk (delete_receipts w d)"
    by (simp add: line_items_fk_def delete_receipts_def Let_def list_all_iff has_parent_kept)
qed

text \<open>Deleting the example receipt removes it and its three line items: four rows.\<close>

theorem delete_receipts_cascade_witness:
  "line_items_fk example_db \<and>
   line_items_fk (delete_receipts (\<lambda>r. r_id r = 1) example_db) \<and>
   receipts (delete_receipts (\<lambda>r. r_id r = 1) example_db) = [] \<and>
   line_items (delete_receipts (\<lambda>r. r_id r = 1) example_db) = []"
proof -
  have fk: "line_items_fk example_db"
    by (simp add: line_items_fk_def has_parent_def example_db_def example_receipt_def
        example_line_item_def)
  have rows: "receipts (delete_receipts (\<lambda>r. r_id r = 1) example_db) = [] \<and>
      line_items (delete_receipts (\<lambda>r. r_id r = 1) example_db) = []"
    by (simp add: delete_receipts_def example_db_def example_receipt_def example_line_item_def)
  from delete_receipts_cascade [of "\<lambda>r. r_id r = 1" example_db] fk
  have "line_items_fk (delete_receipts (\<lambda>r. r_id r = 1) example_db)"
    by blast
  with fk rows show ?thesis by simp
qed

text \<open>The other statements keep the foreign key as well.\<close>

lemma insert_line_item_fk:
  assumes "line_items_fk d" and "insert_line_item gen now a d = Inr d'"
  shows "line_items_fk d'"
  using assms
  by (auto simp: insert_line_item_def line_items_fk_def
      split: option.splits sum.splits if_splits)

lemma has_parent_append: "has_parent rs l \<Longrightarrow> has_parent (rs @ more_rs) l"
  by (auto simp: has_parent_def split: option.splits)

lemma insert_receipt_fk:
  assumes "line_items_fk d" and "insert_receipt gen now a d = Inr d'"
  shows "line_items_fk d'"
  using assms
  by (auto simp: insert_receipt_def line_items_fk_def list_all_iff has_parent_append
      split: option.splits sum.splits if_splits)

lemma update_receipts_fk:
  assumes "update_receipts now w s d = Inr d'"
  shows "line_items_fk d'"
  using assms
  by (auto simp: update_receipts_def line_items_fk_def split: sum.splits if_splits)

subsection \<open>The updated\_at trigger\<close>

lemma update_receipts_scan_rows:
  "update_receipts_scan now w s seen rest = Inr rs \<Longrightarrow>
   \<exists>new. rs = seen @ new \<and>
     list_all2 (\<lambda>old n. if w old then r_updated_at n = Some now \<and> receipt_constraints n = None
                else n = old) rest new"
proof (induction rest arbitrary: seen)
  case Nil
  then show ?case by simp
next
  case (Cons old rest)
  show ?case
  proof (cases "w old")
    case True
    with Cons.prems obtain new where
      rec: "update_receipts_scan now w s (seen @ [update_updated_at_column now new]) rest = Inr rs"
      and ok: "receipt_constraints (update_updated_at_column now new) = None"
      by (auto split: sum.splits option.splits if_splits)
    from Cons.IH [OF rec] obtain more_rows where
      "rs = (seen @ [update_updated_at_column now new]) @ more_rows"
      "list_all2 (\<lambda>old n. if w old then r_updated_at n = Some now \<and> receipt_constraints n = None
                else n = old) rest more_rows"
      by blast
    with True ok show ?thesis
      by (intro exI [of _ "update_updated_at_column now new # more_rows"])
        (simp add: update_updated_at_column_def)
  next
    case False
    with Cons.prems have rec: "update_receipts_scan now w s (seen @ [old]) rest = Inr rs"
      by simp
    from Cons.IH [OF rec] obtain more_rows where
      "rs = (seen @ [old]) @ more_rows"
      "list_all2 (\<lambda>old n. if w old then r_updated_at n = Some now \<and> receipt_constraints n = None
                else n = old) rest more_rows"
      by blast
    with False show ?thesis
      by (intro exI [of _ "old # more_rows"]) simp
  qed
qed

text \<open>
  C8. An \<^verbatim>\<open>UPDATE\<close> of receipts that goes through keeps the rows in place; every row
  it selected has \<open>updated_at\<close> equal to the statement's \<open>CURRENT_TIMESTAMP\<close>, whatever
  columns the \<^verbatim>\<open>SET\<close> clause assigns (\<open>updated_at\<close> itself among them); every row it
  did not select is as it was.
\<close>

theorem update_receipts_refreshes_updated_at:
  assumes "update_receipts now w s d = Inr d'"
  shows "length (receipts d') = length (receipts d) \<and>
    (\<forall>i < length (receipts d).
       if w (receipts d ! i) then r_updated_at (receipts d' ! i) = Some now
       else receipts d' ! i = receipts d ! i)"
proof -
  from assms obtain rs where scan: "update_receipts_scan now w s [] (receipts d) = Inr rs"
    and d': "d' = d\<lparr>receipts := rs\<rparr>"
    by (auto simp: update_receipts_def split: sum.splits if_splits)
  from update_receipts_scan_rows [OF scan]
  have "list_all2 (\<lambda>old n. if w old then r_updated_at n = Some now \<and> receipt_constraints n = None
                else n = old) (receipts d) rs"
    by simp
  with d' show ?thesis
    by (auto simp: list_all2_conv_all_nth)
qed

text \<open>
  Setting the example receipt to \<open>complete\<close> at time 9, with a \<^verbatim>\<open>SET\<close> clause that
  also writes 0 to \<open>updated_at\<close>: the row carries 9.
\<close>

theorem update_receipts_refreshes_updated_at_witness:
  "update_receipts 9 (\<lambda>r. r_id r = 1)
      (\<lambda>r. r\<lparr>r_status := Some ''complete'', r_updated_at := Some 0\<rparr>) example_db =
     Inr (example_db\<lparr>receipts :=
            [example_receipt\<lparr>r_status := Some ''complete'', r_updated_at := Some 9\<rparr>]\<rparr>) \<and>
   r_updated_at
     (receipts (example_db\<lparr>receipts :=
            [example_receipt\<lparr>r_status := Some ''complete'', r_updated_at := Some 9\<rparr>]\<rparr>) ! 0) =
     Some 9"
proof -
  have run: "update_receipts 9 (\<lambda>r. r_id r = 1)
      (\<lambda>r. r\<lparr>r_status := Some ''complete'', r_updated_at := Some 0\<rparr>) example_db =
     Inr (example_db\<lparr>receipts :=
            [example_receipt\<lparr>r_status := Some ''complete'', r_updated_at := Some 9\<rparr>]\<rparr>)"
    by (simp add: update_receipts_def example_db_def example_receipt_def example_line_item_def
        coerce_receipt_def varchar_def varchar_value_def decimal_10_2_def
        receipt_constraints_def receipts_status_check_def update_updated_at_column_def
        has_parent_def)
  have "0 < length (receipts example_db)"
    by (simp add: example_db_def)
  with update_receipts_refreshes_updated_at [OF run] run show ?thesis
    by (auto simp: example_db_def example_receipt_def)
qed

subsection \<open>The status of a receipt\<close>

text \<open>
  What the status column does guarantee: a receipt inserted with no status is
  \<open>pending\<close>, and a status that is not NULL is one of the three.
\<close>

lemma varchar_short: "length s \<le> n \<Longrightarrow> varchar n (Some s) = Inr (Some s)"
  by (simp add: varchar_def varchar_value_def)

lemma coerce_receipt_status:
  "coerce_receipt r = Inr r' \<Longrightarrow> r_status r = Some s \<Longrightarrow> length s \<le> 50 \<Longrightarrow>
   r_status r' = Some s"
  by (auto simp: coerce_receipt_def varchar_short split: sum.splits)

lemma insert_receipt_default_status:
  assumes "ins_r_status a = DEFAULT" and "insert_receipt gen now a d = Inr d'"
  shows "\<exists>r. receipts d' = receipts d @ [r] \<and> r_status r = Some ''pending''"
proof -
  from assms obtain i r0 r where
    c: "coerce_receipt r0 = Inr r" and s: "r_status r0 = Some ''pending''"
    and d': "d' = d\<lparr>receipts := receipts d @ [r]\<rparr>"
    by (auto simp: insert_receipt_def split: option.splits sum.splits if_splits)
  from coerce_receipt_status [OF c s] d' show ?thesis by simp
qed

lemma insert_receipt_status_check:
  assumes "insert_receipt gen now a d = Inr d'"
  shows "\<exists>r. receipts d' = receipts d @ [r] \<and> receipts_status_check (r_status r)"
  using assms
  by (auto simp: insert_receipt_def receipt_constraints_def
      split: option.splits sum.splits if_splits)

lemma update_receipts_status_check:
  assumes "update_receipts now w s d = Inr d'"
    and "list_all (\<lambda>r. receipts_status_check (r_status r)) (receipts d)"
  shows "list_all (\<lambda>r. receipts_status_check (r_status r)) (receipts d')"
proof -
  from assms(1) obtain rs where scan: "update_receipts_scan now w s [] (receipts d) = Inr rs"
    and d': "d' = d\<lparr>receipts := rs\<rparr>"
    by (auto simp: update_receipts_def split: sum.splits if_splits)
  from update_receipts_scan_rows [OF scan]
  have rows: "list_all2
      (\<lambda>old n. if w old then r_updated_at n = Some now \<and> receipt_constraints n = None
                else n = old) (receipts d) rs"
    by simp
  have "receipts_status_check (r_status (rs ! i))" if "i < length rs" for i
  proof (cases "w (receipts d ! i)")
    case True
    with rows that have "receipt_constraints (rs ! i) = None"
      by (auto simp: list_all2_conv_all_nth)
    then show ?thesis
      by (simp add: receipt_constraints_def split: if_splits)
  next
    case False
    with rows that have "rs ! i = receipts d ! i" and "i < length (receipts d)"
      by (auto simp: list_all2_conv_all_nth)
    with assms(2) show ?thesis
      by (simp add: list_all_length)
  qed
  with d' show ?thesis
    by (simp add: list_all_length)
qed

text \<open>
  C2. The status column is nullable, and the \<^verbatim>\<open>CHECK\<close> lets NULL through: inserting a
  receipt with an explicit NULL status into the example store goes through, and the
  stored row has no status, which is none of \<open>pending\<close>, \<open>complete\<close>,
  \<open>manual_review\<close>.
\<close>

theorem insert_receipt_null_status:
  "insert_receipt 2 7
     \<lparr>ins_r_id = DEFAULT, ins_r_image_url = VALUE (Some ''/app/storage/r2.png''),
      ins_r_merchant_name = DEFAULT, ins_r_purchase_date = DEFAULT,
      ins_r_total_amount = DEFAULT, ins_r_tax_amount = DEFAULT,
      ins_r_status = VALUE None,
      ins_r_created_at = DEFAULT, ins_r_updated_at = DEFAULT\<rparr>
     example_db =
   Inr (example_db\<lparr>receipts := receipts example_db @
          [\<lparr>r_id = 2, r_image_url = Some ''/app/storage/r2.png'',
            r_merchant_name = None, r_purchase_date = None,
            r_total_amount = None, r_tax_amount = None,
            r_status = None,
            r_created_at = Some 7, r_updated_at = Some 7\<rparr>]\<rparr>)"
  by (simp add: insert_receipt_def coerce_receipt_def varchar_def varchar_value_def
      decimal_10_2_def receipt_constraints_def receipts_status_check_def
      example_db_def example_receipt_def)

subsection \<open>The quantity of a line item\<close>

lemma int4_Inr:
  "int4 v = Inr v' \<Longrightarrow>
   v' = v \<and> (case v of None \<Rightarrow> True | Some q \<Rightarrow> - (2 ^ 31) \<le> q \<and> q < 2 ^ 31)"
  by (cases v) (auto simp: int4_def split: if_splits)

lemma coerce_line_item_quantity:
  assumes "coerce_line_item l = Inr l'"
  shows "li_quantity l' = li_quantity l \<and>
   (case li_quantity l' of None \<Rightarrow> True | Some q \<Rightarrow> - (2 ^ 31) \<le> q \<and> q < 2 ^ 31)"
proof -
  from assms obtain qty where q: "int4 (li_quantity l) = Inr qty" and l': "li_quantity l' = qty"
    by (auto simp: coerce_line_item_def split: sum.splits)
  from int4_Inr [OF q] l' show ?thesis by simp
qed

text \<open>
  C7, as the claim states it, fails: a line item inserted with quantity 0 is stored
  with quantity 0.
\<close>

theorem insert_line_item_quantity_zero:
  "insert_line_item 13 7
     \<lparr>ins_li_id = DEFAULT, ins_li_receipt_id = VALUE (Some 1),
      ins_li_description = VALUE (Some ''Bag''), ins_li_category = DEFAULT,
      ins_li_quantity = VALUE (Some 0),
      ins_li_unit_price = DEFAULT, ins_li_total_price = DEFAULT,
      ins_li_created_at = DEFAULT\<rparr>
     example_db =
   Inr (example_db\<lparr>line_items := line_items example_db @
          [\<lparr>li_id = 13, li_receipt_id = Some 1, li_description = Some ''Bag'',
            li_category = None, li_quantity = Some 0,
            li_unit_price = None, li_total_price = None,
            li_created_at = Some 7\<rparr>]\<rparr>) \<and>
   \<not> (1::int) \<le> 0"
  by (simp add: insert_line_item_def coerce_line_item_def varchar_def varchar_value_def
      decimal_10_2_def int4_def has_parent_def example_db_def example_receipt_def
      example_line_item_def)

text \<open>
  C7, amended. An insert into line\_items that goes through adds one row. Its quantity
  is 1 when the insert gives none, and otherwise the quantity the insert gives: NULL,
  or any integer of four bytes. The store enforces no lower bound.
\<close>

theorem insert_line_item_quantity:
  assumes "insert_line_item gen now a d = Inr d'"
  shows "\<exists>l. line_items d' = line_items d @ [l] \<and>
    (ins_li_quantity a = DEFAULT \<longrightarrow> li_quantity l = Some 1) \<and>
    (\<forall>v. ins_li_quantity a = VALUE v \<longrightarrow> li_quantity l = v) \<and>
    (case li_quantity l of None \<Rightarrow> True | Some q \<Rightarrow> - (2 ^ 31) \<le> q \<and> q < 2 ^ 31)"
proof -
  from assms obtain l0 l where
    c: "coerce_line_item l0 = Inr l"
    and q: "li_quantity l0 = or_default (Some 1) (ins_li_quantity a)"
    and d': "d' = d\<lparr>line_items := line_items d @ [l]\<rparr>"
    by (auto simp: insert_line_item_def split: option.splits sum.splits if_splits)
  from coerce_line_item_quantity [OF c] q d' show ?thesis
    by (cases "ins_li_quantity a") auto
qed

text \<open>A line item inserted into the example store with no quantity has quantity 1.\<close>

theorem insert_line_item_quantity_witness:
  "insert_line_item 13 7
     \<lparr>ins_li_id = DEFAULT, ins_li_receipt_id = VALUE (Some 1),
      ins_li_description = VALUE (Some ''Bag''), ins_li_category = DEFAULT,
      ins_li_quantity = DEFAULT,
      ins_li_unit_price = DEFAULT, ins_li_total_price = DEFAULT,
      ins_li_created_at = DEFAULT\<rparr>
     example_db =
   Inr (example_db\<lparr>line_items := line_items example_db @
          [\<lparr>li_id = 13, li_receipt_id = Some 1, li_description = Some ''Bag'',
            li_category = None, li_quantity = Some 1,
            li_unit_price = None, li_total_price = None,
            li_created_at = Some 7\<rparr>]\<rparr>) \<and>
   map li_quantity
     (line_items (example_db\<lparr>line_items := line_items example_db @
          [\<lparr>li_id = 13, li_receipt_id = Some 1, li_description = Some ''Bag'',
            li_category = None, li_quantity = Some 1,
            li_unit_price = None, li_total_price = None,
            li_created_at = Some 7\<rparr>]\<rparr>)) =
     [Some 1, Some 1, Some 1, Some 1]"
proof -
  have run: "insert_line_item 13 7
     \<lparr>ins_li_id = DEFAULT, ins_li_receipt_id = VALUE (Some 1),
      ins_li_description = VALUE (Some ''Bag''), ins_li_category = DEFAULT,
      ins_li_quantity = DEFAULT,
      ins_li_unit_price = DEFAULT, ins_li_total_price = DEFAULT,
      ins_li_created_at = DEFAULT\<rparr>
     example_db =
   Inr (example_db\<lparr>line_items := line_items example_db @
          [\<lparr>li_id = 13, li_receipt_id = Some 1, li_description = Some ''Bag'',
            li_category = None, li_quantity = Some 1,
            li_unit_price = None, li_total_price = None,
            li_created_at = Some 7\<rparr>]\<rparr>)"
    by (simp add: insert_line_item_def coerce_line_item_def varchar_def varchar_value_def
        decimal_10_2_def int4_def has_parent_def example_db_def example_receipt_def
        example_line_item_def)
  from insert_line_item_quantity [OF run] obtain l where
    "line_items (example_db\<lparr>line_items := line_items example_db @
          [\<lparr>li_id = 13, li_receipt_id = Some 1, li_description = Some ''Bag'',
            li_category = None, li_quantity = Some 1,
            li_unit_price = None, li_total_price = None,
            li_created_at = Some 7\<rparr>]\<rparr>) = line_items example_db @ [l]"
    "li_quantity l = Some 1"
    by auto
  then have "map li_quantity
     (line_items (example_db\<lparr>line_items := line_items example_db @
          [\<lparr>li_id = 13, li_receipt_id = Some 1, li_description = Some ''Bag'',
            li_category = None, li_quantity = Some 1,
            li_unit_price = None, li_total_price = None,
            li_created_at = Some 7\<rparr>]\<rparr>)) =
     map li_quantity (line_items example_db) @ [Some 1]"
    by simp
  with run show ?thesis
    by (simp add: example_db_def example_line_item_def)
qed

section \<open>Categories and settings\<close>

subsection \<open>Insert if absent\<close>

lemma varchar_value_short: "length s \<le> n \<Longrightarrow> varchar_value n s = Inr s"
  by (simp add: varchar_value_def)

lemma varchar_value_length: "varchar_value n s = Inr t \<Longrightarrow> length t \<le> n"
  by (auto simp: varchar_value_def split: if_splits)

lemma varchar_value_again: "varchar_value n s = Inr t \<Longrightarrow> varchar_value n t = Inr t"
  by (simp add: varchar_value_length varchar_value_short)

lemma state_after_simps [simp]:
  "state_after d (Inl e) = d" "state_after d (Inr d') = d'"
  by (simp_all add: state_after_def)

text \<open>The two ways an insert of a category goes through: the row is skipped or added.\<close>

lemma insert_category_Inr:
  assumes "insert_category_on_conflict_do_nothing gen now n b d = Inr d'"
  obtains (skipped) k where "varchar_value 100 n = Inr k"
      "k \<in> set (map cat_name (categories d))" "d' = d"
    | (added) k c where "varchar_value 100 n = Inr k"
      "k \<notin> set (map cat_name (categories d))" "gen \<notin> set (map cat_id (categories d))"
      "cat_name c = k" "cat_id c = gen" "d' = d\<lparr>categories := categories d @ [c]\<rparr>"
proof -
  from assms obtain k lim where k: "varchar_value 100 n = Inr k"
    and rest: "(if k \<in> set (map cat_name (categories d)) then Inr d
      else if gen \<in> set (map cat_id (categories d)) then Inl unique_violation
      else Inr (d\<lparr>categories := categories d @
                     [\<lparr>cat_id = gen, cat_name = k, cat_monthly_budget_limit = lim,
                       cat_created_at = Some now,
                       cat_updated_at =
                         (if categories_has_updated_at d then Some now else None)\<rparr>]\<rparr>)) =
      Inr d'"
    by (auto simp: insert_category_on_conflict_do_nothing_def split: sum.splits)
  show thesis
  proof (cases "k \<in> set (map cat_name (categories d))")
    case True
    with rest have "d' = d" by simp
    with k True show thesis by (rule skipped)
  next
    case False
    with rest have fresh: "gen \<notin> set (map cat_id (categories d))"
      and d': "d' = d\<lparr>categories := categories d @
                     [\<lparr>cat_id = gen, cat_name = k, cat_monthly_budget_limit = lim,
                       cat_created_at = Some now,
                       cat_updated_at =
                         (if categories_has_updated_at d then Some now else None)\<rparr>]\<rparr>"
      by (auto split: if_splits)
    show thesis
      by (rule added [OF k False fresh _ _ d']) simp_all
  qed
qed

lemma insert_category_present:
  assumes "varchar_value 100 n = Inr k" and "k \<in> set (map cat_name (categories d))"
  shows "state_after d (insert_category_on_conflict_do_nothing gen now n b d) = d"
  using assms
  by (auto simp: insert_category_on_conflict_do_nothing_def split: sum.splits)

lemma insert_category_unique:
  assumes "categories_unique d"
    and "insert_category_on_conflict_do_nothing gen now n b d = Inr d'"
  shows "categories_unique d'"
  using assms(2)
proof (cases rule: insert_category_Inr)
  case (skipped k)
  with assms(1) show ?thesis by simp
next
  case (added k c)
  from varchar_value_length [OF added(1)] have "length k \<le> 100" .
  with added assms(1) show ?thesis
    by (simp add: categories_unique_def)
qed

text \<open>
  C3. Inserting a category name with \<^verbatim>\<open>ON CONFLICT (name) DO NOTHING\<close> is idempotent.
  Once an insert of the name has gone through, inserting the name again (with any
  budget limit) leaves the whole store as it is; a name that is in the table is not
  inserted a second time and its row keeps its budget limit; and the uniqueness of the
  names holds after every such insert.
\<close>

theorem insert_category_idempotent:
  "(insert_category_on_conflict_do_nothing gen now n b d = Inr d1 \<longrightarrow>
      state_after d1 (insert_category_on_conflict_do_nothing gen' now' n b' d1) = d1) \<and>
   (categories_unique d \<and> n \<in> set (map cat_name (categories d)) \<longrightarrow>
      state_after d (insert_category_on_conflict_do_nothing gen now n b d) = d) \<and>
   (categories_unique d \<longrightarrow>
      categories_unique (state_after d (insert_category_on_conflict_do_nothing gen now n b d)))"
proof (intro conjI impI)
  assume first: "insert_category_on_conflict_do_nothing gen now n b d = Inr d1"
  from first obtain k where k: "varchar_value 100 n = Inr k"
    and "k \<in> set (map cat_name (categories d1))"
    by (cases rule: insert_category_Inr) auto
  then show "state_after d1 (insert_category_on_conflict_do_nothing gen' now' n b' d1) = d1"
    by (rule insert_category_present)
next
  assume "categories_unique d \<and> n \<in> set (map cat_name (categories d))"
  then have "length n \<le> 100" and n: "n \<in> set (map cat_name (categories d))"
    by (auto simp: categories_unique_def list_all_iff)
  then have "varchar_value 100 n = Inr n"
    by (simp add: varchar_value_short)
  from this n show "state_after d (insert_category_on_conflict_do_nothing gen now n b d) = d"
    by (rule insert_category_present)
next
  assume u: "categories_unique d"
  show "categories_unique (state_after d (insert_category_on_conflict_do_nothing gen now n b d))"
  proof (cases "insert_category_on_conflict_do_nothing gen now n b d")
    case (Inl e)
    with u show ?thesis by simp
  next
    case (Inr d')
    with insert_category_unique [OF u Inr] show ?thesis by simp
  qed
qed

text \<open>
  The example store has Groceries with a limit of 550.00. The row of \<^verbatim>\<open>init.sql\<close>,
  \<open>('Groceries', 400.00)\<close>, is skipped, and so is it when inserted once more.
\<close>

theorem insert_category_idempotent_witness:
  "categories_unique example_db \<and>
   insert_category_on_conflict_do_nothing 101 9 ''Groceries'' (Some 40000) example_db =
     Inr example_db \<and>
   state_after example_db
     (insert_category_on_conflict_do_nothing 102 10 ''Groceries'' None example_db) =
     example_db \<and>
   map cat_monthly_budget_limit (categories example_db) = [Some 55000]"
proof -
  have u: "categories_unique example_db"
    by (simp add: categories_unique_def example_db_def)
  have run: "insert_category_on_conflict_do_nothing 101 9 ''Groceries'' (Some 40000) example_db =
     Inr example_db"
    by (simp add: insert_category_on_conflict_do_nothing_def varchar_value_def
        decimal_10_2_def example_db_def)
  from insert_category_idempotent
    [of 101 9 "''Groceries''" "Some 40000" example_db example_db 102 10 None] run
  have "state_after example_db
     (insert_category_on_conflict_do_nothing 102 10 ''Groceries'' None example_db) =
     example_db"
    by blast
  with u run show ?thesis
    by (simp add: example_db_def)
qed

subsection \<open>The seed statements\<close>

lemma find_append_present:
  "x \<in> set (map f xs) \<Longrightarrow> find (\<lambda>c. f c = x) (xs @ ys) = find (\<lambda>c. f c = x) xs"
  by (induction xs) auto

lemma insert_categories_appends:
  "insert_categories now rows d = Inr d' \<Longrightarrow>
   \<exists>new. d' = d\<lparr>categories := categories d @ new\<rparr>"
proof (induction rows arbitrary: d)
  case Nil
  then have "d' = d\<lparr>categories := categories d @ []\<rparr>" by simp
  then show ?case by blast
next
  case (Cons row rows)
  obtain gen n b where row: "row = (gen, n, b)" by (cases row)
  with Cons.prems obtain d1 where
    one: "insert_category_on_conflict_do_nothing gen now n b d = Inr d1"
    and rest: "insert_categories now rows d1 = Inr d'"
    by (auto split: sum.splits)
  from one obtain new1 where d1: "d1 = d\<lparr>categories := categories d @ new1\<rparr>"
  proof (cases rule: insert_category_Inr)
    case (skipped k)
    then have "d1 = d\<lparr>categories := categories d @ []\<rparr>" by simp
    then show ?thesis by (rule that)
  next
    case (added k c)
    then show ?thesis by (intro that [of "[c]"])
  qed
  from Cons.IH [OF rest] obtain new2 where "d' = d1\<lparr>categories := categories d1 @ new2\<rparr>"
    by blast
  with d1 have "d' = d\<lparr>categories := categories d @ (new1 @ new2)\<rparr>" by simp
  then show ?case by blast
qed

lemma insert_categories_unique:
  "categories_unique d \<Longrightarrow> insert_categories now rows d = Inr d' \<Longrightarrow> categories_unique d'"
proof (induction rows arbitrary: d)
  case Nil
  then show ?case by simp
next
  case (Cons row rows)
  obtain gen n b where row: "row = (gen, n, b)" by (cases row)
  with Cons.prems obtain d1 where
    one: "insert_category_on_conflict_do_nothing gen now n b d = Inr d1"
    and rest: "insert_categories now rows d1 = Inr d'"
    by (auto split: sum.splits)
  from insert_category_unique [OF Cons.prems(1) one] have "categories_unique d1" .
  from Cons.IH [OF this rest] show ?case .
qed

lemma insert_setting_Inr:
  assumes "insert_setting_on_conflict_do_nothing now key val enc d = Inr d'"
  obtains (skipped) k where "varchar_value 100 key = Inr k"
      "k \<in> set (map s_key (settings d))" "d' = d"
    | (added) k s where "varchar_value 100 key = Inr k"
      "k \<notin> set (map s_key (settings d))" "s_key s = k"
      "d' = d\<lparr>settings := settings d @ [s]\<rparr>"
proof -
  from assms obtain k where k: "varchar_value 100 key = Inr k"
    by (cases "varchar_value 100 key") (simp_all add: insert_setting_on_conflict_do_nothing_def)
  with assms have rest: "(if k \<in> set (map s_key (settings d)) then Inr d
        else Inr (d\<lparr>settings := settings d @
                     [\<lparr>s_key = k, s_value = val, s_encrypted = Some enc,
                       s_updated_at = Some now\<rparr>]\<rparr>)) = Inr d'"
    by (auto simp: insert_setting_on_conflict_do_nothing_def split: if_splits)
  show thesis
  proof (cases "k \<in> set (map s_key (settings d))")
    case True
    with rest have "d' = d" by simp
    with k True show thesis by (rule skipped)
  next
    case False
    with rest have d': "d' = d\<lparr>settings := settings d @
                     [\<lparr>s_key = k, s_value = val, s_encrypted = Some enc,
                       s_updated_at = Some now\<rparr>]\<rparr>"
      by simp
    show thesis
      by (rule added [OF k False _ d']) simp
  qed
qed

lemma insert_setting_unique:
  assumes "settings_unique d"
    and "insert_setting_on_conflict_do_nothing now key val enc d = Inr d'"
  shows "settings_unique d'"
  using assms(2)
proof (cases rule: insert_setting_Inr)
  case (skipped k)
  with assms(1) show ?thesis by simp
next
  case (added k s)
  from varchar_value_length [OF added(1)] have "length k \<le> 100" .
  with added assms(1) show ?thesis
    by (simp add: settings_unique_def)
qed

lemma insert_settings_appends:
  "insert_settings now rows d = Inr d' \<Longrightarrow> \<exists>new. d' = d\<lparr>settings := settings d @ new\<rparr>"
proof (induction rows arbitrary: d)
  case Nil
  then have "d' = d\<lparr>settings := settings d @ []\<rparr>" by simp
  then show ?case by blast
next
  case (Cons row rows)
  obtain key val enc where row: "row = (key, val, enc)" by (cases row)
  with Cons.prems obtain d1 where
    one: "insert_setting_on_conflict_do_nothing now key val enc d = Inr d1"
    and rest: "insert_settings now rows d1 = Inr d'"
    by (auto split: sum.splits)
  from one obtain new1 where d1: "d1 = d\<lparr>settings := settings d @ new1\<rparr>"
  proof (cases rule: insert_setting_Inr)
    case (skipped k)
    then have "d1 = d\<lparr>settings := settings d @ []\<rparr>" by simp
    then show ?thesis by (rule that)
  next
    case (added k s)
    then show ?thesis by (intro that [of "[s]"])
  qed
  from Cons.IH [OF rest] obtain new2 where "d' = d1\<lparr>settings := settings d1 @ new2\<rparr>"
    by blast
  with d1 have "d' = d\<lparr>settings := settings d @ (new1 @ new2)\<rparr>" by simp
  then show ?case by blast
qed

lemma insert_settings_unique:
  "settings_unique d \<Longrightarrow> insert_settings now rows d = Inr d' \<Longrightarrow> settings_unique d'"
proof (induction rows arbitrary: d)
  case Nil
  then show ?case by simp
next
  case (Cons row rows)
  obtain key val enc where row: "row = (key, val, enc)" by (cases row)
  with Cons.prems obtain d1 where
    one: "insert_setting_on_conflict_do_nothing now key val enc d = Inr d1"
    and rest: "insert_settings now rows d1 = Inr d'"
    by (auto split: sum.splits)
  from insert_setting_unique [OF Cons.prems(1) one] have "settings_unique d1" .
  from Cons.IH [OF this rest] show ?case .
qed

text \<open>What a seed statement leaves, whether it went through or was aborted.\<close>

lemma seed_categories_after:
  "\<exists>new. state_after d (seed_categories rows gen now d) =
     d\<lparr>categories := categories d @ new\<rparr>"
proof (cases "seed_categories rows gen now d")
  case (Inl e)
  then have "state_after d (seed_categories rows gen now d) =
      d\<lparr>categories := categories d @ []\<rparr>"
    by simp
  then show ?thesis by blast
next
  case (Inr d')
  then show ?thesis
    using insert_categories_appends [of now _ d d'] by (simp add: seed_categories_def)
qed

lemma seed_categories_named:
  assumes "n \<in> set (map cat_name (categories d))"
  shows "category_named (state_after d (seed_categories rows gen now d)) n = category_named d n"
proof -
  from seed_categories_after obtain new where
    "state_after d (seed_categories rows gen now d) = d\<lparr>categories := categories d @ new\<rparr>"
    by blast
  with assms show ?thesis
    by (simp add: category_named_def find_append_present)
qed

lemma seed_categories_unique:
  assumes "categories_unique d"
  shows "categories_unique (state_after d (seed_categories rows gen now d))"
proof (cases "seed_categories rows gen now d")
  case (Inl e)
  with assms show ?thesis by simp
next
  case (Inr d')
  with insert_categories_unique [OF assms, of now _ d'] show ?thesis
    by (simp add: seed_categories_def)
qed

lemma seed_settings_after:
  "\<exists>new. state_after d (migration_001_seed_settings now d) =
     d\<lparr>settings := settings d @ new\<rparr>"
proof (cases "migration_001_seed_settings now d")
  case (Inl e)
  then have "state_after d (migration_001_seed_settings now d) =
      d\<lparr>settings := settings d @ []\<rparr>"
    by simp
  then show ?thesis by blast
next
  case (Inr d')
  then show ?thesis
    using insert_settings_appends [of now _ d d'] by (simp add: migration_001_seed_settings_def)
qed

lemma seed_settings_unique:
  assumes "settings_unique d"
  shows "settings_unique (state_after d (migration_001_seed_settings now d))"
proof (cases "migration_001_seed_settings now d")
  case (Inl e)
  with assms show ?thesis by simp
next
  case (Inr d')
  with insert_settings_unique [OF assms, of now _ d'] show ?thesis
    by (simp add: migration_001_seed_settings_def)
qed

text \<open>
  C9. Running a seed statement on any store leaves every row that was there as it was:
  for a category name in the table, the row of that name is the same after the seed
  of \<^verbatim>\<open>init.sql\<close> and after the seed of the migration; for a settings key in the
  table, the row of that key (value, encrypted flag) is the same after the settings
  seed. The seeds keep the names and keys unique, so no second row of the name or key
  appears, and a seed of one table leaves the other table alone.
\<close>

theorem seeds_keep_existing_rows:
  "(n \<in> set (map cat_name (categories d)) \<longrightarrow>
      category_named (state_after d (init_sql_seed_categories gen now d)) n =
        category_named d n \<and>
      category_named (state_after d (migration_001_seed_categories gen now d)) n =
        category_named d n) \<and>
   (k \<in> set (map s_key (settings d)) \<longrightarrow>
      setting_of (state_after d (migration_001_seed_settings now d)) k = setting_of d k) \<and>
   (categories_unique d \<longrightarrow>
      categories_unique (state_after d (init_sql_seed_categories gen now d)) \<and>
      categories_unique (state_after d (migration_001_seed_categories gen now d))) \<and>
   (settings_unique d \<longrightarrow>
      settings_unique (state_after d (migration_001_seed_settings now d))) \<and>
   settings (state_after d (init_sql_seed_categories gen now d)) = settings d \<and>
   settings (state_after d (migration_001_seed_categories gen now d)) = settings d \<and>
   categories (state_after d (migration_001_seed_settings now d)) = categories d"
proof -
  have settings_named: "setting_of (state_after d (migration_001_seed_settings now d)) k =
      setting_of d k" if "k \<in> set (map s_key (settings d))"
  proof -
    from seed_settings_after obtain new where
      "state_after d (migration_001_seed_settings now d) = d\<lparr>settings := settings d @ new\<rparr>"
      by blast
    with that show ?thesis
      by (simp add: setting_of_def find_append_present)
  qed
  have other_c: "settings (state_after d (seed_categories rows gen now d)) = settings d" for rows
    using seed_categories_after [of d rows gen now] by auto
  have other_s: "categories (state_after d (migration_001_seed_settings now d)) = categories d"
    using seed_settings_after [of d now] by auto
  show ?thesis
    unfolding init_sql_seed_categories_def migration_001_seed_categories_def
    using settings_named other_c other_s
    by (simp add: seed_categories_named seed_categories_unique seed_settings_unique)
qed

text \<open>
  In the example store Groceries has the limit 550.00 and the theme is \<open>dark\<close>: after
  each seed they still are, where the seeds say 400.00, NULL and \<open>system\<close>.
\<close>

theorem seeds_keep_existing_rows_witness:
  "category_named (state_after example_db (init_sql_seed_categories (\<lambda>k. 200 + k) 9 example_db))
     ''Groceries'' =
     Some \<lparr>cat_id = 100, cat_name = ''Groceries'', cat_monthly_budget_limit = Some 55000,
          cat_created_at = Some 1, cat_updated_at = None\<rparr> \<and>
   category_named
     (state_after example_db (migration_001_seed_categories (\<lambda>k. 200 + k) 9 example_db))
     ''Groceries'' =
     Some \<lparr>cat_id = 100, cat_name = ''Groceries'', cat_monthly_budget_limit = Some 55000,
          cat_created_at = Some 1, cat_updated_at = None\<rparr> \<and>
   setting_of (state_after example_db (migration_001_seed_settings 9 example_db)) ''theme'' =
     Some \<lparr>s_key = ''theme'', s_value = ''dark'', s_encrypted = Some False,
          s_updated_at = Some 6\<rparr>"
proof -
  have n: "''Groceries'' \<in> set (map cat_name (categories example_db))"
    and k: "''theme'' \<in> set (map s_key (settings example_db))"
    by (simp_all add: example_db_def)
  have before: "category_named example_db ''Groceries'' =
     Some \<lparr>cat_id = 100, cat_name = ''Groceries'', cat_monthly_budget_limit = Some 55000,
          cat_created_at = Some 1, cat_updated_at = None\<rparr>"
    "setting_of example_db ''theme'' =
     Some \<lparr>s_key = ''theme'', s_value = ''dark'', s_encrypted = Some False,
          s_updated_at = Some 6\<rparr>"
    by (simp_all add: category_named_def setting_of_def example_db_def)
  from seeds_keep_existing_rows [of "''Groceries''" example_db "\<lambda>k. 200 + k" 9 "''theme''"] n k
  have "category_named
      (state_after example_db (init_sql_seed_categories (\<lambda>k. 200 + k) 9 example_db))
      ''Groceries'' = category_named example_db ''Groceries''"
    "category_named
      (state_after example_db (migration_001_seed_categories (\<lambda>k. 200 + k) 9 example_db))
      ''Groceries'' = category_named example_db ''Groceries''"
    "setting_of (state_after example_db (migration_001_seed_settings 9 example_db)) ''theme'' =
      setting_of example_db ''theme''"
    by blast+
  with before show ?thesis by simp
qed

subsection \<open>Seeding twice\<close>

text \<open>
  On the empty store the seed of \<^verbatim>\<open>init.sql\<close> goes through and the table holds the
  eleven default categories with their limits.
\<close>

lemma init_sql_seed_on_empty:
  "map (\<lambda>c. (cat_name c, cat_monthly_budget_limit c))
     (categories (state_after empty_db (init_sql_seed_categories (\<lambda>k. k) 0 empty_db))) =
   init_sql_categories"
  by (simp add: init_sql_seed_categories_def seed_categories_def init_sql_categories_def
      insert_category_on_conflict_do_nothing_def varchar_value_def decimal_10_2_def
      empty_db_def upt_rec [of 0] upt_rec [of "Suc _"])

lemma insert_categories_names_grow:
  assumes "insert_categories now rows d = Inr d'"
  shows "set (map cat_name (categories d)) \<subseteq> set (map cat_name (categories d'))"
proof -
  from insert_categories_appends [OF assms] obtain new where
    "d' = d\<lparr>categories := categories d @ new\<rparr>"
    by blast
  then show ?thesis by auto
qed

lemma insert_categories_names:
  "insert_categories now rows d = Inr d' \<Longrightarrow> (g, n, b) \<in> set rows \<Longrightarrow> length n \<le> 100 \<Longrightarrow>
   n \<in> set (map cat_name (categories d'))"
proof (induction rows arbitrary: d)
  case Nil
  then show ?case by simp
next
  case (Cons row rows)
  obtain g1 n1 b1 where row: "row = (g1, n1, b1)" by (cases row)
  with Cons.prems(1) obtain d1 where
    one: "insert_category_on_conflict_do_nothing g1 now n1 b1 d = Inr d1"
    and rest: "insert_categories now rows d1 = Inr d'"
    by (auto split: sum.splits)
  show ?case
  proof (cases "(g, n, b) = row")
    case True
    with row Cons.prems(3) have "varchar_value 100 n1 = Inr n" and "n1 = n"
      by (simp_all add: varchar_value_short)
    with one have "n \<in> set (map cat_name (categories d1))"
      by (cases rule: insert_category_Inr) auto
    with insert_categories_names_grow [OF rest] show ?thesis by blast
  next
    case False
    with Cons.prems(2) have "(g, n, b) \<in> set rows" by simp
    from Cons.IH [OF rest this Cons.prems(3)] show ?thesis .
  qed
qed

lemma insert_categories_all_present:
  "list_all (\<lambda>(g, n, b). length n \<le> 100 \<and> decimal_10_2 b = Inr b \<and>
      n \<in> set (map cat_name (categories d))) rows \<Longrightarrow>
   insert_categories now rows d = Inr d"
proof (induction rows)
  case Nil
  then show ?case by simp
next
  case (Cons row rows)
  obtain g n b where row: "row = (g, n, b)" by (cases row)
  with Cons.prems have "insert_category_on_conflict_do_nothing g now n b d = Inr d"
    by (simp add: insert_category_on_conflict_do_nothing_def varchar_value_short)
  with Cons row show ?case by simp
qed

text \<open>
  A seed that has gone through has put every one of its names into the table. A seed
  of the same names that runs afterwards, be it the same statement or the one of the
  other script, skips every row: the store stays exactly as it is.
\<close>

lemma seed_categories_again:
  assumes first: "seed_categories rows gen now d = Inr d1"
    and names: "set (map fst rows') \<subseteq> set (map fst rows)"
    and ok: "list_all (\<lambda>(n, b). length n \<le> 100 \<and> decimal_10_2 b = Inr b) rows'"
    and len: "list_all (\<lambda>(n, b). length n \<le> 100) rows"
  shows "seed_categories rows' gen' now' d1 = Inr d1"
proof -
  have "length n \<le> 100 \<and> decimal_10_2 b = Inr b \<and> n \<in> set (map cat_name (categories d1))"
    if "(g, n, b) \<in> set (zip (map gen' [0..<length rows']) rows')" for g n b
  proof -
    from that have in_rows': "(n, b) \<in> set rows'" by (rule set_zip_rightD)
    with ok have valid: "length n \<le> 100" "decimal_10_2 b = Inr b"
      by (auto simp: list_all_iff)
    from in_rows' names obtain b0 where "(n, b0) \<in> set rows" by force
    then obtain i where i: "i < length rows" "rows ! i = (n, b0)"
      by (auto simp: in_set_conv_nth)
    then have "(gen i, n, b0) \<in> set (zip (map gen [0..<length rows]) rows)"
      by (auto simp: in_set_zip intro!: exI [of _ i])
    from insert_categories_names [OF first [unfolded seed_categories_def] this valid(1)] valid
    show ?thesis by simp
  qed
  then have "list_all (\<lambda>(g, n, b). length n \<le> 100 \<and> decimal_10_2 b = Inr b \<and>
      n \<in> set (map cat_name (categories d1))) (zip (map gen' [0..<length rows']) rows')"
    by (auto simp: list_all_iff)
  then show ?thesis
    unfolding seed_categories_def by (rule insert_categories_all_present)
qed

lemma seeds_rerun:
  assumes "init_sql_seed_categories gen now d = Inr d1"
  shows "init_sql_seed_categories gen' now' d1 = Inr d1"
    and "migration_001_seed_categories gen' now' d1 = Inr d1"
proof -
  have len: "list_all (\<lambda>(n, b). length n \<le> 100) init_sql_categories"
    by (simp add: init_sql_categories_def)
  have ok1: "list_all (\<lambda>(n, b). length n \<le> 100 \<and> decimal_10_2 b = Inr b) init_sql_categories"
    by (simp add: init_sql_categories_def decimal_10_2_def)
  have ok2: "list_all (\<lambda>(n, b). length n \<le> 100 \<and> decimal_10_2 b = Inr b) migration_001_categories"
    by (simp add: migration_001_categories_def decimal_10_2_def)
  have same: "map fst migration_001_categories = map fst init_sql_categories"
    by (simp add: migration_001_categories_def init_sql_categories_def)
  from assms have first: "seed_categories init_sql_categories gen now d = Inr d1"
    by (simp add: init_sql_seed_categories_def)
  from seed_categories_again [OF first _ ok1 len]
  show "init_sql_seed_categories gen' now' d1 = Inr d1"
    by (simp add: init_sql_seed_categories_def)
  from seed_categories_again [OF first _ ok2 len] same
  show "migration_001_seed_categories gen' now' d1 = Inr d1"
    by (simp add: migration_001_seed_categories_def)
qed

subsection \<open>The settings upsert\<close>

lemma filter_key_absent:
  "k \<notin> set (map f xs) \<Longrightarrow> filter (\<lambda>s. f s = k) xs = []"
  by (induction xs) auto

lemma filter_key_distinct:
  "distinct (map f xs) \<Longrightarrow> k \<in> set (map f xs) \<Longrightarrow> \<exists>x. filter (\<lambda>s. f s = k) xs = [x]"
proof (induction xs)
  case Nil
  then show ?case by simp
next
  case (Cons a xs)
  show ?case
  proof (cases "f a = k")
    case True
    with Cons.prems have "k \<notin> set (map f xs)" by auto
    then have "filter (\<lambda>s. f s = k) xs = []" by (rule filter_key_absent)
    with True show ?thesis by simp
  next
    case False
    with Cons show ?thesis by auto
  qed
qed

lemma map_key_write:
  "map s_key
     (map (\<lambda>s. if s_key s = k
               then s\<lparr>s_value := v, s_encrypted := e, s_updated_at := t\<rparr>
               else s) xs) =
   map s_key xs"
  by (induction xs) auto

lemma filter_key_write:
  "filter (\<lambda>s. s_key s = k)
     (map (\<lambda>s. if s_key s = k
               then s\<lparr>s_value := v, s_encrypted := e, s_updated_at := t\<rparr>
               else s) xs) =
   map (\<lambda>s. s\<lparr>s_value := v, s_encrypted := e, s_updated_at := t\<rparr>)
     (filter (\<lambda>s. s_key s = k) xs)"
  by (induction xs) auto

lemma settings_unique_keys:
  "settings_unique d =
     (distinct (map s_key (settings d)) \<and> list_all (\<lambda>n. length n \<le> 100) (map s_key (settings d)))"
  by (simp add: settings_unique_def list_all_iff)

text \<open>One \<open>set\<close> on a table with unique keys: the key has one row, with the value written.\<close>

lemma settings_set_one_row:
  assumes u: "settings_unique d" and len: "length k \<le> 100"
  obtains d' where "settings_set now k v enc d = Inr d'" "settings_unique d'"
    "map s_value (filter (\<lambda>s. s_key s = k) (settings d')) = [v]"
    "map s_key (settings d') = map s_key (settings d) @
      (if k \<in> set (map s_key (settings d)) then [] else [k])"
proof (cases "k \<in> set (map s_key (settings d))")
  case True
  let ?rows = "map (\<lambda>s. if s_key s = k
                then s\<lparr>s_value := v, s_encrypted := Some enc, s_updated_at := Some now\<rparr>
                else s) (settings d)"
  have run: "settings_set now k v enc d = Inr (d\<lparr>settings := ?rows\<rparr>)"
    using True len by (simp add: settings_set_def varchar_value_short)
  have keys: "map s_key ?rows = map s_key (settings d)"
    by (rule map_key_write)
  from u have "distinct (map s_key (settings d))"
    by (simp add: settings_unique_def)
  from filter_key_distinct [OF this True] obtain x where
    "filter (\<lambda>s. s_key s = k) (settings d) = [x]"
    by blast
  then have row: "map s_value (filter (\<lambda>s. s_key s = k) ?rows) = [v]"
    by (simp add: filter_key_write)
  from u keys have unique: "settings_unique (d\<lparr>settings := ?rows\<rparr>)"
    by (simp add: settings_unique_keys del: map_map)
  show thesis
  proof (rule that [OF run unique])
    show "map s_value (filter (\<lambda>s. s_key s = k) (settings (d\<lparr>settings := ?rows\<rparr>))) = [v]"
      using row by simp
    show "map s_key (settings (d\<lparr>settings := ?rows\<rparr>)) = map s_key (settings d) @
      (if k \<in> set (map s_key (settings d)) then [] else [k])"
      using keys True by simp
  qed
next
  case False
  let ?row = "\<lparr>s_key = k, s_value = v, s_encrypted = Some enc, s_updated_at = Some now\<rparr>"
  have run: "settings_set now k v enc d = Inr (d\<lparr>settings := settings d @ [?row]\<rparr>)"
    using False len by (simp add: settings_set_def varchar_value_short)
  from False have none: "filter (\<lambda>s. s_key s = k) (settings d) = []"
    by (rule filter_key_absent)
  from u False len have unique: "settings_unique (d\<lparr>settings := settings d @ [?row]\<rparr>)"
    by (simp add: settings_unique_keys)
  show thesis
  proof (rule that [OF run unique])
    show "map s_value
        (filter (\<lambda>s. s_key s = k) (settings (d\<lparr>settings := settings d @ [?row]\<rparr>))) = [v]"
      using none by simp
    show "map s_key (settings (d\<lparr>settings := settings d @ [?row]\<rparr>)) =
        map s_key (settings d) @ (if k \<in> set (map s_key (settings d)) then [] else [k])"
      using False by simp
  qed
qed

text \<open>
  C4. On a settings table with unique keys, writing a key twice goes through both
  times and leaves exactly one row of that key, holding the value written last; the
  second write adds no key, and the keys stay unique.
\<close>

theorem settings_set_last_write_wins:
  assumes "settings_unique d" and "length k \<le> 100"
  shows "\<exists>d1 d2. settings_set t1 k v1 e1 d = Inr d1 \<and> settings_set t2 k v2 e2 d1 = Inr d2 \<and>
    map s_value (filter (\<lambda>s. s_key s = k) (settings d2)) = [v2] \<and>
    map s_key (settings d2) = map s_key (settings d1) \<and>
    settings_unique d2"
proof -
  obtain d1 where first: "settings_set t1 k v1 e1 d = Inr d1" and u1: "settings_unique d1"
    and row1: "map s_value (filter (\<lambda>s. s_key s = k) (settings d1)) = [v1]"
    and "map s_key (settings d1) = map s_key (settings d) @
      (if k \<in> set (map s_key (settings d)) then [] else [k])"
    by (rule settings_set_one_row [OF assms])
  have present: "k \<in> set (map s_key (settings d1))"
  proof (rule ccontr)
    assume "k \<notin> set (map s_key (settings d1))"
    then have "filter (\<lambda>s. s_key s = k) (settings d1) = []"
      by (rule filter_key_absent)
    with row1 show False by simp
  qed
  obtain d2 where second: "settings_set t2 k v2 e2 d1 = Inr d2" and u2: "settings_unique d2"
    and row2: "map s_value (filter (\<lambda>s. s_key s = k) (settings d2)) = [v2]"
    and keys2: "map s_key (settings d2) = map s_key (settings d1) @
      (if k \<in> set (map s_key (settings d1)) then [] else [k])"
    by (rule settings_set_one_row [OF u1 assms(2)])
  from keys2 present have same_keys: "map s_key (settings d2) = map s_key (settings d1)"
    by simp
  show ?thesis
  proof (intro exI conjI)
    show "settings_set t1 k v1 e1 d = Inr d1" by (rule first)
    show "settings_set t2 k v2 e2 d1 = Inr d2" by (rule second)
    show "map s_value (filter (\<lambda>s. s_key s = k) (settings d2)) = [v2]" by (rule row2)
    show "map s_key (settings d2) = map s_key (settings d1)" by (rule same_keys)
    show "settings_unique d2" by (rule u2)
  qed
qed

text \<open>
  In the example store the theme is \<open>dark\<close>. Writing \<open>light\<close> and then \<open>system\<close> leaves
  one row of the key, with \<open>system\<close>.
\<close>

theorem settings_set_last_write_wins_witness:
  "settings_unique example_db \<and>
   settings_set 8 ''theme'' ''light'' False example_db =
     Inr (example_db\<lparr>settings :=
            [\<lparr>s_key = ''theme'', s_value = ''light'', s_encrypted = Some False,
              s_updated_at = Some 8\<rparr>]\<rparr>) \<and>
   settings_set 9 ''theme'' ''system'' False
     (example_db\<lparr>settings :=
            [\<lparr>s_key = ''theme'', s_value = ''light'', s_encrypted = Some False,
              s_updated_at = Some 8\<rparr>]\<rparr>) =
     Inr (example_db\<lparr>settings :=
            [\<lparr>s_key = ''theme'', s_value = ''system'', s_encrypted = Some False,
              s_updated_at = Some 9\<rparr>]\<rparr>)"
proof -
  have u: "settings_unique example_db"
    by (simp add: settings_unique_def example_db_def)
  have len: "length ''theme'' \<le> 100"
    by simp
  have first: "settings_set 8 ''theme'' ''light'' False example_db =
     Inr (example_db\<lparr>settings :=
            [\<lparr>s_key = ''theme'', s_value = ''light'', s_encrypted = Some False,
              s_updated_at = Some 8\<rparr>]\<rparr>)"
    by (simp add: settings_set_def varchar_value_def example_db_def)
  from settings_set_last_write_wins [OF u len, of 8 "''light''" False 9 "''system''" False] first
  obtain d2 where second: "settings_set 9 ''theme'' ''system'' False
     (example_db\<lparr>settings :=
            [\<lparr>s_key = ''theme'', s_value = ''light'', s_encrypted = Some False,
              s_updated_at = Some 8\<rparr>]\<rparr>) = Inr d2"
    by auto
  have "settings_set 9 ''theme'' ''system'' False
     (example_db\<lparr>settings :=
            [\<lparr>s_key = ''theme'', s_value = ''light'', s_encrypted = Some False,
              s_updated_at = Some 8\<rparr>]\<rparr>) =
     Inr (example_db\<lparr>settings :=
            [\<lparr>s_key = ''theme'', s_value = ''system'', s_encrypted = Some False,
              s_updated_at = Some 9\<rparr>]\<rparr>)"
    by (simp add: settings_set_def varchar_value_def example_db_def)
  with u first second show ?thesis by simp
qed

section \<open>The upload dropzone: what the component does on a drop\<close>

lemma selected_files_onDrop: "selected_files (onDrop acceptedFiles rejectedFiles) = take 1 acceptedFiles"
  by (cases acceptedFiles) (simp_all add: onDrop_def)

lemma callbacks_onDrop:
  "callbacks (onDrop acceptedFiles rejectedFiles) = map onFileSelect (take 1 acceptedFiles)"
  by (cases acceptedFiles) (simp_all add: onDrop_def callbacks_def)

text \<open>The example dropzone keeps to the two rules that the component relies on.\<close>

lemma react_dropzone_accepts:
  assumes "react_dropzone opts fs = Some (acc, rej)" and "f \<in> set acc"
  shows "file_type f \<in> set (map fst (dz_accept opts))"
  using assms
  by (auto simp: react_dropzone_def Let_def split: if_splits)

lemma react_dropzone_disabled: "dz_disabled opts \<Longrightarrow> react_dropzone opts fs = None"
  by (simp add: react_dropzone_def)

text \<open>
  C5, as the claim states it, fails. A drop of one text file reaches \<open>onDrop\<close> as no
  accepted file and one rejection: the component writes a console warning and calls
  neither \<open>onFileSelect\<close> nor \<open>onFileRemove\<close>.
\<close>

theorem onDrop_rejection_not_reported:
  "onDrop [] [\<lparr>rej_file = example_txt, rej_errors = [invalid_type]\<rparr>] =
     [console_warn ''File rejected:'' [invalid_type]] \<and>
   callbacks (onDrop [] [\<lparr>rej_file = example_txt, rej_errors = [invalid_type]\<rparr>]) = [] \<and>
   callbacks (handle_drop react_dropzone \<lparr>selectedFile = None, disabled = False\<rparr> [example_txt]) = []"
  by (simp add: onDrop_def callbacks_def handle_drop_def react_dropzone_def
      useDropzone_options_def example_txt_def Let_def)

text \<open>
  C5, amended. On every drop the callbacks the component calls are the same as if no
  file had been rejected: \<open>onFileSelect\<close> with the first accepted file, if there is one,
  and nothing else. When a file was rejected, the errors of the first rejection go to
  \<^verbatim>\<open>console.warn\<close>.
\<close>

theorem onDrop_rejections_only_logged:
  "callbacks (onDrop acceptedFiles rejectedFiles) = callbacks (onDrop acceptedFiles []) \<and>
   callbacks (onDrop acceptedFiles rejectedFiles) = map onFileSelect (take 1 acceptedFiles) \<and>
   (rejectedFiles \<noteq> [] \<longrightarrow>
      console_warn ''File rejected:'' (rej_errors (rejectedFiles ! 0)) \<in>
        set (onDrop acceptedFiles rejectedFiles))"
  by (simp add: callbacks_onDrop) (simp add: onDrop_def)

theorem onDrop_rejections_only_logged_witness:
  "callbacks (onDrop [example_png] [\<lparr>rej_file = example_txt, rej_errors = [invalid_type]\<rparr>]) =
     [onFileSelect example_png] \<and>
   console_warn ''File rejected:'' [invalid_type] \<in>
     set (onDrop [example_png] [\<lparr>rej_file = example_txt, rej_errors = [invalid_type]\<rparr>])"
proof -
  have "[\<lparr>rej_file = example_txt, rej_errors = [invalid_type]\<rparr>] \<noteq> []"
    by simp
  with onDrop_rejections_only_logged
    [of "[example_png]" "[\<lparr>rej_file = example_txt, rej_errors = [invalid_type]\<rparr>]"]
  have "callbacks (onDrop [example_png] [\<lparr>rej_file = example_txt, rej_errors = [invalid_type]\<rparr>]) =
      map onFileSelect (take 1 [example_png]) \<and>
    console_warn ''File rejected:''
      (rej_errors ([\<lparr>rej_file = example_txt, rej_errors = [invalid_type]\<rparr>] ! 0)) \<in>
      set (onDrop [example_png] [\<lparr>rej_file = example_txt, rej_errors = [invalid_type]\<rparr>])"
    by blast
  then show ?thesis by simp
qed

text \<open>
  C6. Take any dropzone that accepts only files whose type is a key of its \<^verbatim>\<open>accept\<close>
  option and that ignores drops while it is disabled. Then, on every drop: a file
  handed to \<open>onFileSelect\<close> has type \<open>image/jpeg\<close>, \<open>image/png\<close> or \<open>application/pdf\<close>;
  at most one file is handed over, the first of those the dropzone accepted; and while
  a file is selected the component does nothing at all with the drop.
\<close>

theorem handle_drop_one_allowed_file:
  assumes accepts: "\<And>opts fs acc rej f.
      lib opts fs = Some (acc, rej) \<Longrightarrow> f \<in> set acc \<Longrightarrow>
      file_type f \<in> set (map fst (dz_accept opts))"
    and ignores: "\<And>opts fs. dz_disabled opts \<Longrightarrow> lib opts fs = None"
  shows "(\<forall>f \<in> set (selected_files (handle_drop lib p files)).
            file_type f \<in> {''image/jpeg'', ''image/png'', ''application/pdf''}) \<and>
    length (selected_files (handle_drop lib p files)) \<le> 1 \<and>
    (\<forall>acc rej. lib (useDropzone_options p) files = Some (acc, rej) \<longrightarrow>
       selected_files (handle_drop lib p files) = take 1 acc) \<and>
    (selectedFile p \<noteq> None \<longrightarrow> handle_drop lib p files = [])"
proof (cases "lib (useDropzone_options p) files")
  case None
  then show ?thesis
    by (simp add: handle_drop_def)
next
  case (Some called)
  obtain acc rej where called: "called = (acc, rej)" by (cases called)
  with Some have run: "lib (useDropzone_options p) files = Some (acc, rej)" by simp
  then have sel: "selected_files (handle_drop lib p files) = take 1 acc"
    by (simp add: handle_drop_def selected_files_onDrop)
  have types: "file_type f \<in> {''image/jpeg'', ''image/png'', ''application/pdf''}"
    if "f \<in> set (take 1 acc)" for f
  proof -
    from that have "f \<in> set acc" by (rule in_set_takeD)
    from accepts [OF run this] show ?thesis
      by (simp add: useDropzone_options_def)
  qed
  have enabled: "selectedFile p = None"
  proof (rule ccontr)
    assume "selectedFile p \<noteq> None"
    then have "dz_disabled (useDropzone_options p)"
      by (simp add: useDropzone_options_def)
    from ignores [OF this] run show False by simp
  qed
  from sel types enabled run show ?thesis
    by simp
qed

text \<open>
  With the example dropzone: a drop of a PNG and a text file selects the PNG; while
  the PNG is selected, a drop of a JPEG does nothing.
\<close>

theorem handle_drop_one_allowed_file_witness:
  "selected_files
     (handle_drop react_dropzone \<lparr>selectedFile = None, disabled = False\<rparr>
        [example_png, example_txt]) = [example_png] \<and>
   file_type example_png = ''image/png'' \<and>
   handle_drop react_dropzone \<lparr>selectedFile = Some example_png, disabled = False\<rparr>
     [example_jpeg] = []"
proof -
  have run: "selected_files
     (handle_drop react_dropzone \<lparr>selectedFile = None, disabled = False\<rparr>
        [example_png, example_txt]) = [example_png]"
    by (simp add: handle_drop_def react_dropzone_def useDropzone_options_def onDrop_def
        example_png_def example_txt_def Let_def)
  from handle_drop_one_allowed_file
    [of react_dropzone "\<lparr>selectedFile = Some example_png, disabled = False\<rparr>" "[example_jpeg]",
      OF react_dropzone_accepts react_dropzone_disabled]
  have "handle_drop react_dropzone \<lparr>selectedFile = Some example_png, disabled = False\<rparr>
     [example_jpeg] = []"
    by simp
  with run show ?thesis
    by (simp add: example_png_def)
qed

subsection \<open>formatFileSize\<close>

lemma formatFileSize_zero: "formatFileSize 0 = ''0 Bytes''"
  by (simp add: formatFileSize_def)

lemma floor_log_bounds:
  "2 \<le> k \<Longrightarrow> 0 < n \<Longrightarrow> k ^ floor_log k n \<le> n \<and> n < k ^ Suc (floor_log k n)"
proof (induction k n rule: floor_log.induct)
  case (1 k n)
  show ?case
  proof (cases "n < k")
    case True
    with "1.prems" show ?thesis
      by (simp add: floor_log.simps [of k n])
  next
    case False
    with "1.prems" have pos: "0 < n div k"
      by (simp add: div_greater_zero_iff)
    from "1.prems" False have unfold: "floor_log k n = Suc (floor_log k (n div k))"
      by (simp add: floor_log.simps [of k n])
    from "1.IH" "1.prems" False pos
    have lo: "k ^ floor_log k (n div k) \<le> n div k"
      and hi: "n div k < k ^ Suc (floor_log k (n div k))"
      by simp_all
    from lo have "k * k ^ floor_log k (n div k) \<le> k * (n div k)"
      by (rule mult_le_mono2)
    also have "\<dots> \<le> n"
      by (rule times_div_less_eq_dividend)
    finally have lower: "k ^ floor_log k n \<le> n"
      by (simp add: unfold)
    from hi have "Suc (n div k) \<le> k ^ Suc (floor_log k (n div k))"
      by simp
    then have "k * Suc (n div k) \<le> k * k ^ Suc (floor_log k (n div k))"
      by (rule mult_le_mono2)
    moreover from "1.prems" have "n < k * Suc (n div k)"
      using dividend_less_times_div [of k n] by (simp add: mult.commute)
    ultimately have upper: "n < k ^ Suc (floor_log k n)"
      by (simp add: unfold)
    from lower upper show ?thesis ..
  qed
qed

text \<open>
  Below 1024 ^ 4 bytes the function does what its name says: the unit is one of the
  four of \<open>sizes\<close>, the one whose power of 1024 is the largest that fits.
\<close>

lemma formatFileSize_unit:
  assumes "0 < bytes" and "bytes < 1024 ^ 4"
  shows "\<exists>i < 4. 1024 ^ i \<le> bytes \<and> bytes < 1024 ^ Suc i \<and>
    formatFileSize bytes = number_string (toFixed_2 bytes (1024 ^ i)) @ '' '' @ sizes ! i"
proof -
  let ?i = "floor_log 1024 bytes"
  from floor_log_bounds [of 1024 bytes] assms(1)
  have lo: "1024 ^ ?i \<le> bytes" and hi: "bytes < 1024 ^ Suc ?i"
    by simp_all
  from lo assms(2) have "(1024::nat) ^ ?i < 1024 ^ 4"
    by (rule le_less_trans)
  then have small: "?i < 4"
    using power_less_imp_less_exp [of "1024::nat" ?i 4] by simp
  with assms(1) have "formatFileSize bytes =
      number_string (toFixed_2 bytes (1024 ^ ?i)) @ '' '' @ sizes ! ?i"
    by (simp add: formatFileSize_def Let_def sizes_def)
  with small lo hi show ?thesis by blast
qed

lemma floor_log_2_tebibytes: "floor_log 1024 2199023255552 = 4"
  by (simp add: floor_log.simps)

text \<open>
  C10. For a file of 2 TiB (2199023255552 bytes) the index is 4, beyond the four
  entries of \<open>sizes\<close>: the text is \<open>2 undefined\<close>, with none of the units Bytes, KB, MB,
  GB.
\<close>

theorem formatFileSize_2_tebibytes: "formatFileSize 2199023255552 = ''2 undefined''"
  by (simp add: formatFileSize_def floor_log_2_tebibytes sizes_def number_string_def
      toFixed_2_def digits.simps)

end
